theory Spec2Isabelle
  imports Main "HOL-Library.AList" "HOL-Library.Word"
begin

section \<open>The group host process of yabridge (\<^verbatim>\<open>src/wine-host/bridges/group.cpp\<close>)\<close>

text \<open>
  The development follows \<^verbatim>\<open>group.cpp\<close> function by function. Everything a function
  does beyond returning a value is explicit: calls into the operating system, the sockets,
  the logger and the plugin bridges are recorded, in program order, in a list of effects,
  and every exception that can leave a function is a value of a sum type.
\<close>

subsection \<open>Listening on the group socket: \<^verbatim>\<open>create_acceptor_if_inactive\<close>\<close>

text \<open>
  \<^verbatim>\<open>boost::system::system_error\<close> carries an error code. Boost's
  \<^verbatim>\<open>filesystem_error\<close> is derived from it, so one type covers what the acceptor's
  constructor and \<^verbatim>\<open>fs::remove\<close> throw.
\<close>

datatype system_error = SystemError int

text \<open>
  The operating system is a parameter of the model: \<open>'w\<close> is the state of the machine
  (socket files, listening processes) and \<open>'a\<close> the acceptor object.
  \<^item> \<open>bind_listen\<close> is the constructor
    \<^verbatim>\<open>boost::asio::local::stream_protocol::acceptor(io_context, endpoint)\<close>, which opens,
    binds and listens, or throws;
  \<^item> \<open>proc_net_unix\<close> is the content of \<^verbatim>\<open>/proc/net/unix\<close>, one entry for each
    \<^verbatim>\<open>std::getline\<close> (no lines when the file cannot be opened);
  \<^item> \<open>fs_remove\<close> is \<^verbatim>\<open>boost::filesystem::remove\<close>: whether a file was removed, or
    the error it throws.
\<close>

record ('w, 'a) local_os =
  bind_listen :: "'w \<Rightarrow> string \<Rightarrow> (system_error + 'a) \<times> 'w"
  proc_net_unix :: "'w \<Rightarrow> string list"
  fs_remove :: "'w \<Rightarrow> string \<Rightarrow> (system_error + bool) \<times> 'w"

datatype os_call = Bind string | ReadOpenSockets | Remove string

text \<open>
  The loop over the lines of \<^verbatim>\<open>/proc/net/unix\<close> (lines 318 to 329). It is left in one
  way only, by \<^verbatim>\<open>throw error\<close>; the function tells whether that happens.
  \<^verbatim>\<open>line.substr(line.size() - endpoint_path.size())\<close> is the end of the line from that
  position on; the subtraction cannot wrap, since shorter lines were skipped.
\<close>

fun another_process_listening :: "string list \<Rightarrow> string \<Rightarrow> bool" where
  "another_process_listening [] endpoint_path = False"
| "another_process_listening (line # lines) endpoint_path =
     (if length line < length endpoint_path
      then another_process_listening lines endpoint_path
      else (let file = drop (length line - length endpoint_path) line
            in if file = endpoint_path then True
               else another_process_listening lines endpoint_path))"

text \<open>
  The function returns the acceptor or the exception that leaves it, the calls it made to
  the operating system in order, and the state of the machine afterwards.
\<close>

definition create_acceptor_if_inactive ::
  "('w, 'a) local_os \<Rightarrow> 'w \<Rightarrow> string \<Rightarrow> (system_error + 'a) \<times> os_call list \<times> 'w" where
  "create_acceptor_if_inactive os w endpoint_path =
     (case bind_listen os w endpoint_path of
        (Inr acceptor, w1) \<Rightarrow> (Inr acceptor, [Bind endpoint_path], w1)
      | (Inl error, w1) \<Rightarrow>
          if another_process_listening (proc_net_unix os w1) endpoint_path
          then (Inl error, [Bind endpoint_path, ReadOpenSockets], w1)
          else (case fs_remove os w1 endpoint_path of
                  (Inl remove_error, w2) \<Rightarrow>
                    (Inl remove_error,
                     [Bind endpoint_path, ReadOpenSockets, Remove endpoint_path], w2)
                | (Inr removed, w2) \<Rightarrow>
                    (case bind_listen os w2 endpoint_path of
                       (result, w3) \<Rightarrow>
                         (result,
                          [Bind endpoint_path, ReadOpenSockets, Remove endpoint_path,
                           Bind endpoint_path], w3))))"

text \<open>
  A small machine to run the function on: the socket files that exist, and the paths of the
  sockets some process listens on. Binding fails with \<^verbatim>\<open>EADDRINUSE\<close> (98) when the file
  exists; \<^verbatim>\<open>/proc/net/unix\<close> shows a line of columns that ends with the path of each
  listening socket.
\<close>

record machine =
  socket_files :: "string list"
  listening :: "string list"

definition unix_line :: "string \<Rightarrow> string" where
  "unix_line path = ''0000000000000000: 00000002 00000000 00010000 0001 01 20213 '' @ path"

definition machine_os :: "(machine, string) local_os" where
  "machine_os =
     \<lparr> bind_listen = (\<lambda>w path.
         if path \<in> set (socket_files w) then (Inl (SystemError 98), w)
         else (Inr path,
               w\<lparr>socket_files := path # socket_files w, listening := path # listening w\<rparr>)),
       proc_net_unix = (\<lambda>w. map unix_line (listening w)),
       fs_remove = (\<lambda>w path.
         (Inr (path \<in> set (socket_files w)),
          w\<lparr>socket_files := removeAll path (socket_files w)\<rparr>)) \<rparr>"

subsection \<open>The state of a \<^verbatim>\<open>GroupBridge\<close> and what its handlers do to the outside\<close>

text \<open>
  \<^verbatim>\<open>GroupRequest\<close> is declared in a header that is not part of this file; the two fields
  this file reads are kept. A request is the key of \<^verbatim>\<open>active_plugins\<close>.
\<close>

datatype group_request =
  GroupRequest (plugin_path: string) (endpoint_base_dir: string)

text \<open>
  Instants of \<^verbatim>\<open>std::chrono::steady_clock\<close>: a signed 64-bit count of nanoseconds.
  Durations given in milliseconds or seconds are converted to nanoseconds when they are
  added to an instant.
\<close>

type_synonym time_point = "64 word"

type_synonym msg = nat

datatype thread = Thread group_request

datatype effect =
    Log string
  | ContextStop
  | ReadObject
  | WriteObject nat
  | ConstructBridge string string
  | SpawnThread group_request
  | AsyncAccept
  | PostErase group_request
  | ShutdownExpiresAt time_point
  | HandleX11 group_request
  | ShouldSkip group_request
  | PeekMessage "msg option"
  | TranslateMessage msg
  | DispatchMessage msg
  | EventsExpiresAt time_point

text \<open>
  \<^verbatim>\<open>active_plugins\<close> is a map from requests to a thread and a bridge. It is kept as an
  association list, so that having a key once only is a property to prove and not one of
  the type; the order of the list is the order the \<^verbatim>\<open>for\<close> loops visit the map in.
  \<open>'b\<close> is the state of a \<^verbatim>\<open>Vst2Bridge\<close>. A timer holds the expiry of its pending
  wait, if it has one. \<open>message_queue\<close> is the Win32 message queue of the thread.
\<close>

record 'b group_bridge =
  active_plugins :: "(group_request \<times> thread \<times> 'b) list"
  effects :: "effect list"
  context_stopped :: bool
  events_timer_expiry :: time_point
  events_timer_waiting :: bool
  shutdown_timer :: "time_point option"
  message_queue :: "msg list"

text \<open>
  \<^verbatim>\<open>Vst2Bridge\<close> and the window procedures belong to other files. They are parameters:
  what \<^verbatim>\<open>handle_x11_events\<close> does to a bridge, what its
  \<^verbatim>\<open>should_skip_message_loop\<close> answers, and the messages that handling a message
  posts to the queue. \<open>max_win32_messages\<close> is a constant of \<^verbatim>\<open>group.h\<close>.
\<close>

record 'b collaborators =
  handle_x11_events :: "'b \<Rightarrow> 'b"
  should_skip_message_loop :: "'b \<Rightarrow> bool"
  window_procedure :: "msg \<Rightarrow> msg list"
  max_win32_messages :: int

datatype exn = SystemErrorExn system_error | OtherExn string

text \<open>
  What the constructor of \<^verbatim>\<open>Vst2Bridge\<close> does: it returns a bridge, or it throws. The
  handler catches by the class \<^verbatim>\<open>std::runtime_error\<close>, and so it catches every class
  derived from it as well, \<^verbatim>\<open>boost::system::system_error\<close> among them; all it reads
  of the exception is \<^verbatim>\<open>what()\<close>. \<open>RuntimeError what\<close> is any exception of these
  classes, with its \<^verbatim>\<open>what()\<close>; \<open>ThrowsOther\<close> is an exception of any other class.
\<close>

datatype 'b construct_result = Constructed 'b | RuntimeError string | ThrowsOther string

text \<open>
  What the outside does during one call of the accept handler: the error code of the
  accept and its message, what \<^verbatim>\<open>read_object\<close> returns or throws, whether
  \<^verbatim>\<open>write_object\<close> throws, and what the constructor of \<^verbatim>\<open>Vst2Bridge\<close> does with a
  plugin path and a base directory.
\<close>

record 'b connection =
  accept_error :: "string option"
  read_object :: "exn + group_request"
  write_object :: "exn option"
  make_bridge :: "string \<Rightarrow> string \<Rightarrow> 'b construct_result"

text \<open>
  A handler ends normally, or the process aborts in an \<^verbatim>\<open>assert\<close>, or an exception
  leaves the handler; the state reached by then is kept.
\<close>

datatype failure = AssertionFailed | Unwind exn

type_synonym 'b outcome = "(failure \<times> 'b group_bridge) + 'b group_bridge"

definition emit :: "effect list \<Rightarrow> 'b group_bridge \<Rightarrow> 'b group_bridge" where
  "emit es s = s\<lparr>effects := effects s @ es\<rparr>"

definition stop :: "'b group_bridge \<Rightarrow> 'b group_bridge" where
  "stop s = (emit [ContextStop] s)\<lparr>context_stopped := True\<rparr>"

definition contains :: "('k \<times> 'v) list \<Rightarrow> 'k \<Rightarrow> bool" where
  "contains m k = (map_of m k \<noteq> None)"

subsection \<open>\<^verbatim>\<open>accept_requests\<close>\<close>

definition accept_requests :: "'b group_bridge \<Rightarrow> 'b group_bridge" where
  "accept_requests s = emit [AsyncAccept] s"

text \<open>The lines the handler logs; \<^verbatim>\<open>0x27\<close> is the single quote.\<close>

definition received_request_line :: "group_request \<Rightarrow> string" where
  "received_request_line request =
     ''Received request to host '' @ [CHR 0x27] @ plugin_path request @ [CHR 0x27]
     @ '' using socket endpoint base directory '' @ [CHR 0x27]
     @ endpoint_base_dir request @ [CHR 0x27]"

definition finished_initializing_line :: "group_request \<Rightarrow> string" where
  "finished_initializing_line request =
     ''Finished initializing '' @ [CHR 0x27] @ plugin_path request @ [CHR 0x27]"

definition error_initializing_line :: "group_request \<Rightarrow> string" where
  "error_initializing_line request =
     ''Error while initializing '' @ [CHR 0x27] @ plugin_path request @ [CHR 0x27] @ '':''"

text \<open>
  The handler given to \<^verbatim>\<open>async_accept\<close> (lines 183 to 236), in two parts. The first
  is the branch for a failed accept (lines 188 to 193). It has no \<^verbatim>\<open>return\<close>: control
  goes on to the second part, from \<^verbatim>\<open>read_object\<close> to the call that arms the acceptor
  again (lines 201 to 235), whatever the error code was. Around the construction,
  \<^verbatim>\<open>std::runtime_error\<close> and the classes derived from it are caught, and nothing
  else; \<^verbatim>\<open>read_object\<close> and \<^verbatim>\<open>write_object\<close> are outside the \<^verbatim>\<open>try\<close>. The
  \<^verbatim>\<open>assert\<close> is compiled in.
\<close>

definition accept_failed :: "string option \<Rightarrow> 'b group_bridge \<Rightarrow> 'b group_bridge" where
  "accept_failed error s =
     (case error of
        Some message \<Rightarrow>
          stop (emit [Log ''Error while listening for incoming connections:'',
                      Log message] s)
      | None \<Rightarrow> s)"

definition host_plugin :: "nat \<Rightarrow> 'b connection \<Rightarrow> 'b group_bridge \<Rightarrow> 'b outcome" where
  "host_plugin pid conn s =
     (let s1 = emit [ReadObject] s
      in case read_object conn of
           Inl e \<Rightarrow> Inl (Unwind e, s1)
         | Inr request \<Rightarrow>
             (let s2 = emit [WriteObject pid] s1
              in case write_object conn of
                   Some e \<Rightarrow> Inl (Unwind e, s2)
                 | None \<Rightarrow>
                     if contains (active_plugins s2) request then Inl (AssertionFailed, s2)
                     else
                       (let s3 = emit [Log (received_request_line request),
                                       ConstructBridge (plugin_path request)
                                         (endpoint_base_dir request)] s2
                        in case make_bridge conn (plugin_path request)
                                  (endpoint_base_dir request) of
                             Constructed bridge \<Rightarrow>
                               (let s4 = emit [Log (finished_initializing_line request),
                                               SpawnThread request] s3;
                                    s5 = s4\<lparr>active_plugins :=
                                           AList.update request (Thread request, bridge)
                                             (active_plugins s4)\<rparr>
                                in Inr (accept_requests s5))
                           | RuntimeError what \<Rightarrow>
                               Inr (accept_requests
                                 (emit [Log (error_initializing_line request),
                                        Log what] s3))
                           | ThrowsOther e \<Rightarrow> Inl (Unwind (OtherExn e), s3))))"

definition accept_handler ::
  "nat \<Rightarrow> 'b connection \<Rightarrow> 'b group_bridge \<Rightarrow> 'b outcome" where
  "accept_handler pid conn s = host_plugin pid conn (accept_failed (accept_error conn) s)"

subsection \<open>\<^verbatim>\<open>handle_plugin_dispatch\<close> and the shutdown timer\<close>

text \<open>
  The handler given to \<^verbatim>\<open>shutdown_timer.async_wait\<close> (lines 140 to 153); \<open>error\<close> is
  \<^verbatim>\<open>error.failed()\<close>, true when the wait was cancelled.
\<close>

definition shutdown_timer_handler :: "bool \<Rightarrow> 'b group_bridge \<Rightarrow> 'b group_bridge" where
  "shutdown_timer_handler error s =
     (if error then s
      else if length (active_plugins s) = 0
      then stop (emit [Log ''All plugins have exited, shutting down the group process''] s)
      else s)"

text \<open>
  \<^verbatim>\<open>shutdown_timer.expires_after(2s)\<close> followed by \<^verbatim>\<open>async_wait\<close>, as Boost.Asio
  documents them: setting the expiry cancels the pending wait, whose handler is called with
  the error \<^verbatim>\<open>operation_aborted\<close>; the new wait expires two seconds after \<open>now\<close>.
\<close>

definition shutdown_delay :: time_point where
  "shutdown_delay = 2 * 1000000000"

definition arm_shutdown_timer :: "time_point \<Rightarrow> 'b group_bridge \<Rightarrow> 'b group_bridge" where
  "arm_shutdown_timer now s =
     (let s1 = (case shutdown_timer s of
                  Some pending \<Rightarrow> shutdown_timer_handler True s
                | None \<Rightarrow> s)
      in (emit [ShutdownExpiresAt (now + shutdown_delay)] s1)
           \<lparr>shutdown_timer := Some (now + shutdown_delay)\<rparr>)"

text \<open>
  The task posted to the context by \<^verbatim>\<open>handle_plugin_dispatch\<close> (lines 130 to 135).
\<close>

definition erase_task :: "group_request \<Rightarrow> 'b group_bridge \<Rightarrow> 'b group_bridge" where
  "erase_task request s = s\<lparr>active_plugins := AList.delete request (active_plugins s)\<rparr>"

text \<open>
  \<^verbatim>\<open>handle_plugin_dispatch\<close>, at the instant \<open>now\<close> at which the blocking call
  \<^verbatim>\<open>bridge->handle_dispatch()\<close> returns. \<^verbatim>\<open>active_plugins.at(request)\<close> throws
  \<^verbatim>\<open>std::out_of_range\<close> for a key that is not there.
\<close>

definition has_exited_line :: "group_request \<Rightarrow> string" where
  "has_exited_line request = [CHR 0x27] @ plugin_path request @ [CHR 0x27] @ '' has exited''"

definition handle_plugin_dispatch ::
  "group_request \<Rightarrow> time_point \<Rightarrow> 'b group_bridge \<Rightarrow> 'b outcome" where
  "handle_plugin_dispatch request now s =
     (if \<not> contains (active_plugins s) request
      then Inl (Unwind (OtherExn ''std::out_of_range''), s)
      else Inr (arm_shutdown_timer now
             (emit [Log (has_exited_line request), PostErase request] s)))"

text \<open>
  The clock reaches \<open>now\<close>: a pending wait of the shutdown timer whose expiry has passed
  completes, once, and its handler runs without error.
\<close>

definition shutdown_timer_expires :: "time_point \<Rightarrow> 'b group_bridge \<Rightarrow> 'b group_bridge" where
  "shutdown_timer_expires now s =
     (case shutdown_timer s of
        None \<Rightarrow> s
      | Some expiry \<Rightarrow>
          if expiry \<le>s now then shutdown_timer_handler False (s\<lparr>shutdown_timer := None\<rparr>)
          else s)"

subsection \<open>The event loop: \<^verbatim>\<open>async_handle_events\<close>\<close>

text \<open>
  \<^verbatim>\<open>event_loop_interval = 1000ms / 30\<close> divides a count of milliseconds by an integer,
  which leaves 33 milliseconds; the slack is \<^verbatim>\<open>5ms\<close>. \<^verbatim>\<open>std::max(a, b)\<close> is
  \<open>b\<close> when \<open>a < b\<close> and \<open>a\<close> otherwise, in the signed order of the instants. An
  addition that leaves the 64 bits is undefined in C++; here it wraps, as the machine does.
\<close>

definition event_loop_interval :: time_point where
  "event_loop_interval = (1000 div 30) * 1000000"

definition minimum_slack :: time_point where
  "minimum_slack = 5 * 1000000"

definition std_max :: "time_point \<Rightarrow> time_point \<Rightarrow> time_point" where
  "std_max a b = (if a <s b then b else a)"

definition next_expiry :: "time_point \<Rightarrow> time_point \<Rightarrow> time_point" where
  "next_expiry expiry now = std_max (expiry + event_loop_interval) (now + minimum_slack)"

definition async_handle_events :: "time_point \<Rightarrow> 'b group_bridge \<Rightarrow> 'b group_bridge" where
  "async_handle_events now s =
     (let expiry = next_expiry (events_timer_expiry s) now
      in (emit [EventsExpiresAt expiry] s)
           \<lparr>events_timer_expiry := expiry, events_timer_waiting := True\<rparr>)"

text \<open>The loop of lines 253 to 256: every bridge handles its X11 events.\<close>

fun x11_loop ::
  "'b collaborators \<Rightarrow> (group_request \<times> thread \<times> 'b) list \<Rightarrow>
     (group_request \<times> thread \<times> 'b) list \<times> effect list" where
  "x11_loop C [] = ([], [])"
| "x11_loop C ((parameters, thread, bridge) # rest) =
     (case x11_loop C rest of
        (rest', es) \<Rightarrow>
          ((parameters, thread, handle_x11_events C bridge) # rest',
           HandleX11 parameters # es))"

text \<open>
  \<^verbatim>\<open>GroupBridge::should_skip_message_loop\<close> (lines 165 to 179): the loop returns at the
  first bridge that asks to skip.
\<close>

fun group_should_skip_message_loop ::
  "'b collaborators \<Rightarrow> (group_request \<times> thread \<times> 'b) list \<Rightarrow> bool \<times> effect list" where
  "group_should_skip_message_loop C [] = (False, [])"
| "group_should_skip_message_loop C ((parameters, thread, bridge) # rest) =
     (if should_skip_message_loop C bridge then (True, [ShouldSkip parameters])
      else (case group_should_skip_message_loop C rest of
              (skip, es) \<Rightarrow> (skip, ShouldSkip parameters # es)))"

text \<open>
  The loop of lines 272 to 277, from the value \<open>i\<close> of its counter. \<^verbatim>\<open>PeekMessage\<close> is
  called only when \<open>i\<close> is below the limit; with \<^verbatim>\<open>PM_REMOVE\<close> it takes the first
  message off the queue, and answers false on an empty queue. Handling a message may post
  new ones, which go to the end of the queue.
\<close>

function message_loop ::
  "'b collaborators \<Rightarrow> int \<Rightarrow> msg list \<Rightarrow> msg list \<times> effect list" where
  "message_loop C i queue =
     (if i < max_win32_messages C
      then (case queue of
              [] \<Rightarrow> (queue, [PeekMessage None])
            | m # rest \<Rightarrow>
                (case message_loop C (i + 1) (rest @ window_procedure C m) of
                   (queue', es) \<Rightarrow>
                     (queue',
                      PeekMessage (Some m) # TranslateMessage m # DispatchMessage m # es)))
      else (queue, []))"
  by pat_completeness auto
termination
  by (relation "measure (\<lambda>(C, i, queue). nat (max_win32_messages C - i))") auto

declare message_loop.simps [simp del]

text \<open>
  The handler given to \<^verbatim>\<open>events_timer.async_wait\<close> (lines 245 to 281). \<open>now\<close> is the
  reading of the clock in the call of \<^verbatim>\<open>async_handle_events\<close> that ends it.
\<close>

definition events_timer_handler ::
  "'b collaborators \<Rightarrow> bool \<Rightarrow> time_point \<Rightarrow> 'b group_bridge \<Rightarrow> 'b group_bridge" where
  "events_timer_handler C error now s =
     (if error then s
      else
        (case x11_loop C (active_plugins s) of
           (plugins, x11_effects) \<Rightarrow>
             (let s1 = (emit x11_effects s)\<lparr>active_plugins := plugins\<rparr>
              in case group_should_skip_message_loop C (active_plugins s1) of
                   (skip, skip_effects) \<Rightarrow>
                     (let s2 = emit skip_effects s1;
                          s3 = (if \<not> skip
                                then (case message_loop C 0 (message_queue s2) of
                                        (queue, message_effects) \<Rightarrow>
                                          (emit message_effects s2)\<lparr>message_queue := queue\<rparr>)
                                else s2)
                      in async_handle_events now s3))))"

text \<open>
  The clock reaches the expiry of the events timer: its wait completes and the handler runs
  without error.
\<close>

definition events_timer_expires ::
  "'b collaborators \<Rightarrow> time_point \<Rightarrow> 'b group_bridge \<Rightarrow> 'b group_bridge" where
  "events_timer_expires C now s =
     (if events_timer_waiting s \<and> events_timer_expiry s \<le>s now
      then events_timer_handler C False now (s\<lparr>events_timer_waiting := False\<rparr>)
      else s)"

text \<open>The expiries set by a run of calls of \<^verbatim>\<open>async_handle_events\<close>, one for each reading of the clock.\<close>

fun expiries :: "time_point \<Rightarrow> time_point list \<Rightarrow> time_point list" where
  "expiries expiry [] = []"
| "expiries expiry (now # nows) =
     next_expiry expiry now # expiries (next_expiry expiry now) nows"

text \<open>
  A run in which every reading of the clock is taken when the wait for the last expiry has
  completed, and is far enough from the end of the 64 bits for an interval to be added.
\<close>

fun readings_follow :: "time_point \<Rightarrow> time_point list \<Rightarrow> bool" where
  "readings_follow expiry [] = True"
| "readings_follow expiry (now # nows) =
     (sint expiry \<le> sint now \<and> sint now < 2 ^ 63 - 33000000
      \<and> readings_follow (next_expiry expiry now) nows)"

subsection \<open>The process as a whole\<close>

text \<open>
  The constructor leaves no plugin, both timers without a wait and the events timer at the
  epoch of the clock. \<^verbatim>\<open>handle_incoming_connections\<close> arms the acceptor and the
  events timer before it runs the context.
\<close>

definition initial :: "msg list \<Rightarrow> 'b group_bridge" where
  "initial queue =
     \<lparr> active_plugins = [], effects = [], context_stopped = False,
       events_timer_expiry = 0, events_timer_waiting = False,
       shutdown_timer = None, message_queue = queue \<rparr>"

definition handle_incoming_connections ::
  "time_point \<Rightarrow> 'b group_bridge \<Rightarrow> 'b group_bridge" where
  "handle_incoming_connections now s =
     emit [Log ''Group host is up and running, now accepting incoming connections'']
       (async_handle_events now (accept_requests s))"

text \<open>
  What can happen while the context runs: a connection is accepted, a plugin's dispatch loop
  returns on its own thread, the context runs a posted erase, the clock reaches an instant.
  The context calls no handler once it is stopped; the dispatch threads are not bound by it.
\<close>

datatype 'b event =
    Accepted "'b connection"
  | PluginExited group_request time_point
  | RunPosted group_request
  | ShutdownClock time_point
  | EventsClock time_point

definition step ::
  "nat \<Rightarrow> 'b collaborators \<Rightarrow> 'b event \<Rightarrow> 'b group_bridge \<Rightarrow> 'b outcome" where
  "step pid C ev s =
     (case ev of
        PluginExited request now \<Rightarrow> handle_plugin_dispatch request now s
      | Accepted conn \<Rightarrow> if context_stopped s then Inr s else accept_handler pid conn s
      | RunPosted request \<Rightarrow> if context_stopped s then Inr s else Inr (erase_task request s)
      | ShutdownClock now \<Rightarrow>
          if context_stopped s then Inr s else Inr (shutdown_timer_expires now s)
      | EventsClock now \<Rightarrow>
          if context_stopped s then Inr s else Inr (events_timer_expires C now s))"

fun run :: "nat \<Rightarrow> 'b collaborators \<Rightarrow> 'b event list \<Rightarrow> 'b group_bridge \<Rightarrow> 'b outcome" where
  "run pid C [] s = Inr s"
| "run pid C (ev # evs) s =
     (case step pid C ev s of Inl f \<Rightarrow> Inl f | Inr s' \<Rightarrow> run pid C evs s')"

definition state_of :: "'b outcome \<Rightarrow> 'b group_bridge" where
  "state_of r = (case r of Inl (f, s) \<Rightarrow> s | Inr s \<Rightarrow> s)"

subsection \<open>\<^verbatim>\<open>create_logger_prefix\<close>\<close>

text \<open>
  \<^verbatim>\<open>socket_path.filename()\<close> of Boost.Filesystem: what follows the last separator,
  \<^verbatim>\<open>.\<close> for a path that ends in a separator, and the root directory for itself.
  \<^verbatim>\<open>replace_extension()\<close> without an argument removes the extension, which starts at the
  last dot of a file name other than \<^verbatim>\<open>.\<close> and \<^verbatim>\<open>..\<close>.
\<close>

definition filename :: "string \<Rightarrow> string" where
  "filename p =
     (if p = ''/'' then ''/''
      else if p \<noteq> [] \<and> last p = CHR ''/'' then ''.''
      else rev (takeWhile (\<lambda>c. c \<noteq> CHR ''/'') (rev p)))"

definition replace_extension :: "string \<Rightarrow> string" where
  "replace_extension name =
     (if name = ''.'' \<or> name = ''..'' \<or> CHR ''.'' \<notin> set name then name
      else rev (tl (dropWhile (\<lambda>c. c \<noteq> CHR ''.'') (rev name))))"

text \<open>
  The regular expression \<^verbatim>\<open>^yabridge-group-(.*)-[^-]+-[^-]+$\<close> is a sequence of
  characters, character classes under \<^verbatim>\<open>*\<close> or \<^verbatim>\<open>+\<close>, and one capture group around
  a starred class. In the ECMAScript grammar \<^verbatim>\<open>.\<close> is every character but the line
  terminators, and \<^verbatim>\<open>[^-]\<close> every character but the hyphen.
\<close>

datatype char_class = AnyChar | NoneOf "char list"

fun in_class :: "char_class \<Rightarrow> char \<Rightarrow> bool" where
  "in_class AnyChar c = (c \<noteq> CHR 0x0A \<and> c \<noteq> CHR 0x0D)"
| "in_class (NoneOf cs) c = (c \<notin> set cs)"

datatype regex_item = Chr char | Plus char_class | Star char_class | CaptureStar char_class

definition group_regexp :: "regex_item list" where
  "group_regexp =
     map Chr ''yabridge-group-''
     @ [CaptureStar AnyChar, Chr CHR ''-'', Plus (NoneOf ''-''), Chr CHR ''-'',
        Plus (NoneOf ''-'')]"

text \<open>
  \<^verbatim>\<open>std::regex_match\<close>: the whole string has to match. The quantifiers are greedy: one
  more character is tried first, and given back when the rest does not match. The result is
  the text of the capture group.
\<close>

fun regex_match :: "regex_item list \<Rightarrow> string \<Rightarrow> string option" where
  "regex_match [] s = (if s = [] then Some [] else None)"
| "regex_match (Chr c # r) [] = None"
| "regex_match (Chr c # r) (x # xs) = (if x = c then regex_match r xs else None)"
| "regex_match (Plus cl # r) [] = None"
| "regex_match (Plus cl # r) (x # xs) =
     (if in_class cl x then regex_match (Star cl # r) xs else None)"
| "regex_match (Star cl # r) [] = regex_match r []"
| "regex_match (Star cl # r) (x # xs) =
     (if in_class cl x
      then (case regex_match (Star cl # r) xs of
              Some g \<Rightarrow> Some g
            | None \<Rightarrow> regex_match r (x # xs))
      else regex_match r (x # xs))"
| "regex_match (CaptureStar cl # r) [] = regex_match r []"
| "regex_match (CaptureStar cl # r) (x # xs) =
     (if in_class cl x
      then (case regex_match (CaptureStar cl # r) xs of
              Some g \<Rightarrow> Some (x # g)
            | None \<Rightarrow> regex_match r (x # xs))
      else regex_match r (x # xs))"

text \<open>\<open>i386\<close> tells whether \<^verbatim>\<open>__i386__\<close> is defined, that is, the 32-bit build.\<close>

definition create_logger_prefix :: "bool \<Rightarrow> string \<Rightarrow> string" where
  "create_logger_prefix i386 socket_path =
     (let socket_name = replace_extension (filename socket_path);
          socket_name =
            (case regex_match group_regexp socket_name of
               Some group_match \<Rightarrow> group_match @ (if i386 then ''-x32'' else [])
             | None \<Rightarrow> socket_name)
      in ''['' @ socket_name @ ''] '')"

subsection \<open>Inputs to run the functions on\<close>

text \<open>
  Four machines for the path \<^verbatim>\<open>/tmp/a.sock\<close>: no socket file; a socket file with a
  process listening on it; a socket file nobody listens on; and a socket file nobody
  listens on while a process listens on another socket whose path ends with the same
  characters.
\<close>

definition no_socket :: machine where
  "no_socket = \<lparr> socket_files = [], listening = [] \<rparr>"

definition live_socket :: machine where
  "live_socket = \<lparr> socket_files = [''/tmp/a.sock''], listening = [''/tmp/a.sock''] \<rparr>"

definition stale_socket :: machine where
  "stale_socket = \<lparr> socket_files = [''/tmp/a.sock''], listening = [] \<rparr>"

definition stale_and_namesake :: machine where
  "stale_and_namesake =
     \<lparr> socket_files = [''/tmp/a.sock'', ''/home/u/tmp/a.sock''],
       listening = [''/home/u/tmp/a.sock''] \<rparr>"

text \<open>
  The same operating system, but for a process that is not allowed to remove the socket
  file: \<^verbatim>\<open>fs::remove\<close> throws with \<^verbatim>\<open>EPERM\<close> (1) and leaves the file.
\<close>

definition protected_os :: "(machine, string) local_os" where
  "protected_os = machine_os\<lparr>fs_remove := (\<lambda>w path. (Inl (SystemError 1), w))\<rparr>"


text \<open>
  Two requests, a connection that hands over a request and whose plugin is constructed or
  not as given, collaborators that never ask to skip the message loop, and a process that
  hosts the first plugin. The state of a bridge is a number: the rounds of X11 events it
  has handled.
\<close>

definition plugin_a :: group_request where
  "plugin_a = GroupRequest ''C:/vst/a.dll'' ''/tmp/yabridge-a''"

definition plugin_b :: group_request where
  "plugin_b = GroupRequest ''C:/vst/b.dll'' ''/tmp/yabridge-b''"

definition connection_for :: "group_request \<Rightarrow> nat construct_result \<Rightarrow> nat connection" where
  "connection_for request result =
     \<lparr> accept_error = None, read_object = Inr request, write_object = None,
       make_bridge = (\<lambda>path dir. result) \<rparr>"

definition quiet_plugins :: "nat collaborators" where
  "quiet_plugins =
     \<lparr> handle_x11_events = Suc, should_skip_message_loop = (\<lambda>bridge. False),
       window_procedure = (\<lambda>m. []), max_win32_messages = 20 \<rparr>"

definition hosting_a :: "nat group_bridge" where
  "hosting_a = (initial [])\<lparr>active_plugins := [(plugin_a, Thread plugin_a, 0)]\<rparr>"

text \<open>
  A connection whose plugin fails to load with a \<^verbatim>\<open>std::runtime_error\<close>; one whose
  bridge cannot connect its sockets, so that its constructor throws a
  \<^verbatim>\<open>boost::system::system_error\<close> with the text \<^verbatim>\<open>Connection refused\<close>; one whose
  constructor throws \<^verbatim>\<open>std::bad_alloc\<close>, which is no \<^verbatim>\<open>std::runtime_error\<close>; and
  an accept that completes with an error code, after which reading from the socket throws.
\<close>

definition failing_to_load :: "nat connection" where
  "failing_to_load = connection_for plugin_a (RuntimeError ''The plugin could not be loaded'')"

definition refused_by_sockets :: "nat connection" where
  "refused_by_sockets = connection_for plugin_a (RuntimeError ''Connection refused'')"

definition out_of_memory :: "nat connection" where
  "out_of_memory = connection_for plugin_a (ThrowsOther ''std::bad_alloc'')"

definition failed_accept :: "nat connection" where
  "failed_accept =
     \<lparr> accept_error = Some ''Bad file descriptor'',
       read_object = Inl (SystemErrorExn (SystemError 9)),
       write_object = None,
       make_bridge = (\<lambda>path dir. Constructed 0) \<rparr>"

subsection \<open>Reading the effects\<close>

text \<open>
  The messages a list of effects dispatches, translates and takes off the queue; the
  effects on the message queue; and the effects a handler adds to those of the state it
  starts from.
\<close>

fun dispatched :: "effect list \<Rightarrow> msg list" where
  "dispatched [] = []"
| "dispatched (DispatchMessage m # es) = m # dispatched es"
| "dispatched (e # es) = dispatched es"

fun translated :: "effect list \<Rightarrow> msg list" where
  "translated [] = []"
| "translated (TranslateMessage m # es) = m # translated es"
| "translated (e # es) = translated es"

fun taken_off_queue :: "effect list \<Rightarrow> msg list" where
  "taken_off_queue [] = []"
| "taken_off_queue (PeekMessage (Some m) # es) = m # taken_off_queue es"
| "taken_off_queue (e # es) = taken_off_queue es"

fun is_message_effect :: "effect \<Rightarrow> bool" where
  "is_message_effect (PeekMessage m) = True"
| "is_message_effect (TranslateMessage m) = True"
| "is_message_effect (DispatchMessage m) = True"
| "is_message_effect e = False"

definition new_effects :: "'b group_bridge \<Rightarrow> 'b group_bridge \<Rightarrow> effect list" where
  "new_effects s s' = drop (length (effects s)) (effects s')"

text \<open>
  Collaborators whose window procedure posts two messages for each message it handles,
  with a limit of three messages, and a process with one message in its queue.
  Collaborators whose bridges ask to skip the message loop once they have handled two
  rounds of X11 events, and a process that hosts two plugins, with two messages queued.
\<close>

definition flooding_plugins :: "nat collaborators" where
  "flooding_plugins =
     \<lparr> handle_x11_events = Suc, should_skip_message_loop = (\<lambda>bridge. False),
       window_procedure = (\<lambda>m. [m, m]), max_win32_messages = 3 \<rparr>"



definition flooded :: "nat group_bridge" where
  "flooded = (initial [7])\<lparr>active_plugins := [(plugin_a, Thread plugin_a, 0)]\<rparr>"

definition modal_plugins :: "nat collaborators" where
  "modal_plugins =
     \<lparr> handle_x11_events = Suc, should_skip_message_loop = (\<lambda>bridge. 2 \<le> bridge),
       window_procedure = (\<lambda>m. []), max_win32_messages = 20 \<rparr>"

definition hosting_two :: "nat group_bridge" where
  "hosting_two =
     (initial [7, 8])
       \<lparr>active_plugins := [(plugin_a, Thread plugin_a, 0), (plugin_b, Thread plugin_b, 1)]\<rparr>"

text \<open>
  Readings of the clock for four calls of \<^verbatim>\<open>async_handle_events\<close>, the third after a
  tick that took 160 milliseconds; and a process whose only plugin has exited at the instant
  1000 and has been erased, so that the shutdown timer waits for the instant 2000001000.
\<close>

definition slow_tick :: "time_point list" where
  "slow_tick = [1000000, 40000000, 200000000, 240000000]"


text \<open>
  The end of a socket name that the regular expression asks for: a hyphen, a field, a
  hyphen and a field, both fields non-empty and without a hyphen. And the path of a group
  socket as yabridge names it.
\<close>

definition two_fields :: "string \<Rightarrow> bool" where
  "two_fields s \<longleftrightarrow>
     (\<exists>a b. s = ''-'' @ a @ ''-'' @ b \<and> a \<noteq> [] \<and> b \<noteq> []
            \<and> CHR ''-'' \<notin> set a \<and> CHR ''-'' \<notin> set b)"

definition group_socket :: string where
  "group_socket = ''/tmp/yabridge-group-my-group-1234-x64.sock''"

text \<open>The path of a socket for a group whose name has a line feed in it.\<close>

definition group_socket_with_line_feed :: string where
  "group_socket_with_line_feed = ''/tmp/yabridge-group-a'' @ [CHR 0x0A] @ ''b-1234-x64.sock''"

section \<open>Properties\<close>

subsection \<open>The probe for a live listener\<close>

lemma another_process_listening_iff:
  "another_process_listening lines p \<longleftrightarrow>
     (\<exists>line \<in> set lines. length p \<le> length line \<and> drop (length line - length p) line = p)"
  by (induction lines) (auto simp: Let_def)

lemma ends_with_iff:
  "length p \<le> length line \<and> drop (length line - length p) line = p \<longleftrightarrow>
     (\<exists>columns. line = columns @ p)"
proof
  assume h: "length p \<le> length line \<and> drop (length line - length p) line = p"
  have "line = take (length line - length p) line @ drop (length line - length p) line"
    by simp
  with h have "line = take (length line - length p) line @ p" by simp
  then show "\<exists>columns. line = columns @ p" by blast
next
  assume "\<exists>columns. line = columns @ p"
  then obtain columns where "line = columns @ p" by blast
  then show "length p \<le> length line \<and> drop (length line - length p) line = p" by simp
qed

lemma another_process_listening_ends:
  "another_process_listening lines p \<longleftrightarrow> (\<exists>line \<in> set lines. \<exists>columns. line = columns @ p)"
  unfolding another_process_listening_iff ends_with_iff ..

lemma ends_with_length:
  "(length p \<le> length line \<and> (\<exists>columns. line = columns @ p)) \<longleftrightarrow>
     (\<exists>columns. line = columns @ p)"
  by auto

text \<open>
  Claim C10. After a failed bind, the path \<open>p\<close> is taken to have a live listener if and
  only if some line of the listing of open sockets is at least as long as \<open>p\<close> and ends
  with the characters of \<open>p\<close>. Shorter lines are skipped. So a line that ends with the
  path of another socket, which itself ends with \<open>p\<close>, counts as a live listener: the
  failure of the bind is thrown again, and nothing is removed.
\<close>

theorem liveness_probe_is_suffix_test:
  "(another_process_listening lines p \<longleftrightarrow>
      (\<exists>line \<in> set lines. length p \<le> length line \<and> (\<exists>columns. line = columns @ p)))
   \<and> ((\<forall>line \<in> set lines. length line < length p) \<longrightarrow> \<not> another_process_listening lines p)
   \<and> (bind_listen os w p = (Inl error, w1)
        \<and> columns @ other @ p \<in> set (proc_net_unix os w1)
      \<longrightarrow> create_acceptor_if_inactive os w p = (Inl error, [Bind p, ReadOpenSockets], w1))"
proof (intro conjI impI)
  show "another_process_listening lines p \<longleftrightarrow>
      (\<exists>line \<in> set lines. length p \<le> length line \<and> (\<exists>columns. line = columns @ p))"
    unfolding ends_with_length by (rule another_process_listening_ends)
next
  assume short: "\<forall>line \<in> set lines. length line < length p"
  show "\<not> another_process_listening lines p"
  proof
    assume "another_process_listening lines p"
    then obtain line where "line \<in> set lines" and "length p \<le> length line"
      unfolding another_process_listening_iff by blast
    with short show False by fastforce
  qed
next
  assume h: "bind_listen os w p = (Inl error, w1)
        \<and> columns @ other @ p \<in> set (proc_net_unix os w1)"
  have "columns @ other @ p = (columns @ other) @ p" by simp
  with h have "\<exists>line \<in> set (proc_net_unix os w1). \<exists>c. line = c @ p"
    by blast
  then have "another_process_listening (proc_net_unix os w1) p"
    unfolding another_process_listening_ends .
  with h show "create_acceptor_if_inactive os w p = (Inl error, [Bind p, ReadOpenSockets], w1)"
    by (simp add: create_acceptor_if_inactive_def)
qed


theorem liveness_probe_is_suffix_test_witness:
  "bind_listen machine_os stale_and_namesake ''/tmp/a.sock''
     = (Inl (SystemError 98), stale_and_namesake)
   \<and> unix_line ''/home/u/tmp/a.sock'' \<in> set (proc_net_unix machine_os stale_and_namesake)
   \<and> create_acceptor_if_inactive machine_os stale_and_namesake ''/tmp/a.sock''
       = (Inl (SystemError 98), [Bind ''/tmp/a.sock'', ReadOpenSockets], stale_and_namesake)
   \<and> length ''Num Path'' < length ''/tmp/a.sock''
   \<and> \<not> another_process_listening [''Num Path''] ''/tmp/a.sock''"
proof -
  have b: "bind_listen machine_os stale_and_namesake ''/tmp/a.sock''
     = (Inl (SystemError 98), stale_and_namesake)"
    by (simp add: machine_os_def stale_and_namesake_def)
  have l: "unix_line ''/home/u/tmp/a.sock'' \<in> set (proc_net_unix machine_os stale_and_namesake)"
    by (simp add: machine_os_def stale_and_namesake_def)
  have e: "unix_line ''/home/u/tmp/a.sock''
     = ''0000000000000000: 00000002 00000000 00010000 0001 01 20213 '' @ ''/home/u''
       @ ''/tmp/a.sock''"
    by (simp add: unix_line_def)
  have r: "create_acceptor_if_inactive machine_os stale_and_namesake ''/tmp/a.sock''
       = (Inl (SystemError 98), [Bind ''/tmp/a.sock'', ReadOpenSockets], stale_and_namesake)"
    by (rule liveness_probe_is_suffix_test
          [THEN conjunct2, THEN conjunct2, THEN mp, OF conjI, OF b l [unfolded e]])
  have s: "\<forall>line \<in> set [''Num Path''].  length line < length ''/tmp/a.sock''"
    by simp
  have n: "\<not> another_process_listening [''Num Path''] ''/tmp/a.sock''"
    by (rule liveness_probe_is_suffix_test [THEN conjunct2, THEN conjunct1, THEN mp, OF s])
  have "length ''Num Path'' < length ''/tmp/a.sock''" by simp
  with b l r n show ?thesis by (intro conjI)
qed

subsection \<open>Binding, or reclaiming a stale socket\<close>

text \<open>
  Claim C1, as the source has it. When the bind succeeds, the acceptor is returned. When it
  fails and some line of the listing of open sockets ends with the path (the test of C10,
  which the path of another socket that ends with the same characters passes as well), the
  same failure is thrown again and the operating system is asked nothing more: no file is
  removed, and the machine is as the failed bind left it. Otherwise \<^verbatim>\<open>fs::remove\<close> is
  called on the path. When it returns, the bind is tried once more, and only once; what
  the second bind gives, acceptor or failure, is the result. When it throws, its exception
  is the result and the bind is not tried again.
\<close>

theorem create_acceptor_if_inactive_cases:
  "(bind_listen os w p = (Inr acceptor, w1)
      \<longrightarrow> create_acceptor_if_inactive os w p = (Inr acceptor, [Bind p], w1))
   \<and> (bind_listen os w p = (Inl error, w1)
        \<and> (\<exists>line \<in> set (proc_net_unix os w1). \<exists>columns. line = columns @ p)
      \<longrightarrow> create_acceptor_if_inactive os w p = (Inl error, [Bind p, ReadOpenSockets], w1))
   \<and> (bind_listen os w p = (Inl error, w1)
        \<and> \<not> (\<exists>line \<in> set (proc_net_unix os w1). \<exists>columns. line = columns @ p)
        \<and> fs_remove os w1 p = (Inr removed, w2)
      \<longrightarrow> create_acceptor_if_inactive os w p
            = (fst (bind_listen os w2 p),
               [Bind p, ReadOpenSockets, Remove p, Bind p],
               snd (bind_listen os w2 p)))
   \<and> (bind_listen os w p = (Inl error, w1)
        \<and> \<not> (\<exists>line \<in> set (proc_net_unix os w1). \<exists>columns. line = columns @ p)
        \<and> fs_remove os w1 p = (Inl remove_error, w2)
      \<longrightarrow> create_acceptor_if_inactive os w p
            = (Inl remove_error, [Bind p, ReadOpenSockets, Remove p], w2))"
  unfolding another_process_listening_ends [symmetric]
  by (simp add: create_acceptor_if_inactive_def split: prod.splits)


theorem create_acceptor_if_inactive_cases_witness:
  "bind_listen machine_os no_socket ''/tmp/a.sock'' = (Inr ''/tmp/a.sock'', live_socket)
   \<and> create_acceptor_if_inactive machine_os no_socket ''/tmp/a.sock''
       = (Inr ''/tmp/a.sock'', [Bind ''/tmp/a.sock''], live_socket)
   \<and> bind_listen machine_os live_socket ''/tmp/a.sock'' = (Inl (SystemError 98), live_socket)
   \<and> (\<exists>line \<in> set (proc_net_unix machine_os live_socket).
         \<exists>columns. line = columns @ ''/tmp/a.sock'')
   \<and> create_acceptor_if_inactive machine_os live_socket ''/tmp/a.sock''
       = (Inl (SystemError 98), [Bind ''/tmp/a.sock'', ReadOpenSockets], live_socket)
   \<and> bind_listen machine_os stale_socket ''/tmp/a.sock'' = (Inl (SystemError 98), stale_socket)
   \<and> \<not> (\<exists>line \<in> set (proc_net_unix machine_os stale_socket).
         \<exists>columns. line = columns @ ''/tmp/a.sock'')
   \<and> fs_remove machine_os stale_socket ''/tmp/a.sock'' = (Inr True, no_socket)
   \<and> create_acceptor_if_inactive machine_os stale_socket ''/tmp/a.sock''
       = (Inr ''/tmp/a.sock'',
          [Bind ''/tmp/a.sock'', ReadOpenSockets, Remove ''/tmp/a.sock'', Bind ''/tmp/a.sock''],
          live_socket)
   \<and> bind_listen protected_os stale_socket ''/tmp/a.sock''
       = (Inl (SystemError 98), stale_socket)
   \<and> \<not> (\<exists>line \<in> set (proc_net_unix protected_os stale_socket).
         \<exists>columns. line = columns @ ''/tmp/a.sock'')
   \<and> fs_remove protected_os stale_socket ''/tmp/a.sock'' = (Inl (SystemError 1), stale_socket)
   \<and> create_acceptor_if_inactive protected_os stale_socket ''/tmp/a.sock''
       = (Inl (SystemError 1),
          [Bind ''/tmp/a.sock'', ReadOpenSockets, Remove ''/tmp/a.sock''], stale_socket)"
proof -
  have b1: "bind_listen machine_os no_socket ''/tmp/a.sock'' = (Inr ''/tmp/a.sock'', live_socket)"
    by (simp add: machine_os_def no_socket_def live_socket_def)
  have r1: "create_acceptor_if_inactive machine_os no_socket ''/tmp/a.sock''
       = (Inr ''/tmp/a.sock'', [Bind ''/tmp/a.sock''], live_socket)"
    by (rule create_acceptor_if_inactive_cases [THEN conjunct1, THEN mp, OF b1])
  have b2: "bind_listen machine_os live_socket ''/tmp/a.sock''
       = (Inl (SystemError 98), live_socket)"
    by (simp add: machine_os_def live_socket_def)
  have "unix_line ''/tmp/a.sock'' \<in> set (proc_net_unix machine_os live_socket)"
    by (simp add: machine_os_def live_socket_def)
  then have l2: "\<exists>line \<in> set (proc_net_unix machine_os live_socket).
         \<exists>columns. line = columns @ ''/tmp/a.sock''"
    unfolding unix_line_def by blast
  have r2: "create_acceptor_if_inactive machine_os live_socket ''/tmp/a.sock''
       = (Inl (SystemError 98), [Bind ''/tmp/a.sock'', ReadOpenSockets], live_socket)"
    by (rule create_acceptor_if_inactive_cases
          [THEN conjunct2, THEN conjunct1, THEN mp, OF conjI, OF b2 l2])
  have b3: "bind_listen machine_os stale_socket ''/tmp/a.sock''
       = (Inl (SystemError 98), stale_socket)"
    by (simp add: machine_os_def stale_socket_def)
  have l3: "\<not> (\<exists>line \<in> set (proc_net_unix machine_os stale_socket).
         \<exists>columns. line = columns @ ''/tmp/a.sock'')"
    by (simp add: machine_os_def stale_socket_def)
  have f3: "fs_remove machine_os stale_socket ''/tmp/a.sock'' = (Inr True, no_socket)"
    by (simp add: machine_os_def stale_socket_def no_socket_def)
  have "create_acceptor_if_inactive machine_os stale_socket ''/tmp/a.sock''
       = (fst (bind_listen machine_os no_socket ''/tmp/a.sock''),
          [Bind ''/tmp/a.sock'', ReadOpenSockets, Remove ''/tmp/a.sock'', Bind ''/tmp/a.sock''],
          snd (bind_listen machine_os no_socket ''/tmp/a.sock''))"
    by (rule create_acceptor_if_inactive_cases
          [THEN conjunct2, THEN conjunct2, THEN conjunct1, THEN mp,
           OF conjI, OF b3 conjI, OF l3 f3])
  then have r3: "create_acceptor_if_inactive machine_os stale_socket ''/tmp/a.sock''
       = (Inr ''/tmp/a.sock'',
          [Bind ''/tmp/a.sock'', ReadOpenSockets, Remove ''/tmp/a.sock'', Bind ''/tmp/a.sock''],
          live_socket)"
    unfolding b1 by simp
  have b4: "bind_listen protected_os stale_socket ''/tmp/a.sock''
       = (Inl (SystemError 98), stale_socket)"
    by (simp add: protected_os_def machine_os_def stale_socket_def)
  have l4: "\<not> (\<exists>line \<in> set (proc_net_unix protected_os stale_socket).
         \<exists>columns. line = columns @ ''/tmp/a.sock'')"
    by (simp add: protected_os_def machine_os_def stale_socket_def)
  have f4: "fs_remove protected_os stale_socket ''/tmp/a.sock''
       = (Inl (SystemError 1), stale_socket)"
    by (simp add: protected_os_def)
  have r4: "create_acceptor_if_inactive protected_os stale_socket ''/tmp/a.sock''
       = (Inl (SystemError 1),
          [Bind ''/tmp/a.sock'', ReadOpenSockets, Remove ''/tmp/a.sock''], stale_socket)"
    by (rule create_acceptor_if_inactive_cases
          [THEN conjunct2, THEN conjunct2, THEN conjunct2, THEN mp,
           OF conjI, OF b4 conjI, OF l4 f4])
  from b1 r1 b2 l2 r2 b3 l3 f3 r3 b4 l4 f4 r4 show ?thesis by (intro conjI)
qed


text \<open>
  Two calls on which the claim as it is worded does not hold. The bind fails, the path is
  not among the sockets that are listened on, and the process may not remove the file: the
  file stays, the bind is not tried again, and what reaches the caller is the error of the
  removal, not a failure of a bind. And the bind fails while the only socket listened on
  is another one, whose path ends with the same characters: the failure of the bind is
  thrown again and the stale file is not reclaimed.
\<close>

theorem reclaim_is_not_always_tried:
  "bind_listen protected_os stale_socket ''/tmp/a.sock'' = (Inl (SystemError 98), stale_socket)
   \<and> ''/tmp/a.sock'' \<notin> set (listening stale_socket)
   \<and> create_acceptor_if_inactive protected_os stale_socket ''/tmp/a.sock''
       = (Inl (SystemError 1),
          [Bind ''/tmp/a.sock'', ReadOpenSockets, Remove ''/tmp/a.sock''], stale_socket)
   \<and> ''/tmp/a.sock'' \<in> set (socket_files stale_socket)
   \<and> bind_listen machine_os stale_and_namesake ''/tmp/a.sock''
       = (Inl (SystemError 98), stale_and_namesake)
   \<and> ''/tmp/a.sock'' \<notin> set (listening stale_and_namesake)
   \<and> create_acceptor_if_inactive machine_os stale_and_namesake ''/tmp/a.sock''
       = (Inl (SystemError 98), [Bind ''/tmp/a.sock'', ReadOpenSockets], stale_and_namesake)"
proof -
  have a: "create_acceptor_if_inactive protected_os stale_socket ''/tmp/a.sock''
       = (Inl (SystemError 1),
          [Bind ''/tmp/a.sock'', ReadOpenSockets, Remove ''/tmp/a.sock''], stale_socket)"
    by (simp add: create_acceptor_if_inactive_def protected_os_def machine_os_def
          stale_socket_def)
  have "another_process_listening (proc_net_unix machine_os stale_and_namesake) ''/tmp/a.sock''"
    by (simp add: machine_os_def stale_and_namesake_def unix_line_def)
  then have b: "create_acceptor_if_inactive machine_os stale_and_namesake ''/tmp/a.sock''
       = (Inl (SystemError 98), [Bind ''/tmp/a.sock'', ReadOpenSockets], stale_and_namesake)"
    by (simp add: create_acceptor_if_inactive_def)
       (simp add: machine_os_def stale_and_namesake_def)
  have c: "bind_listen protected_os stale_socket ''/tmp/a.sock''
       = (Inl (SystemError 98), stale_socket)"
    "''/tmp/a.sock'' \<notin> set (listening stale_socket)"
    "''/tmp/a.sock'' \<in> set (socket_files stale_socket)"
    "bind_listen machine_os stale_and_namesake ''/tmp/a.sock''
       = (Inl (SystemError 98), stale_and_namesake)"
    "''/tmp/a.sock'' \<notin> set (listening stale_and_namesake)"
    by (simp_all add: protected_os_def machine_os_def stale_socket_def stale_and_namesake_def)
  from a b c show ?thesis by (intro conjI)
qed

subsection \<open>The registry of active plugins\<close>

lemma update_absent:
  "map_of m k = None \<Longrightarrow> AList.update k v m = m @ [(k, v)]"
  by (induction m) (auto split: if_splits)

lemma x11_loop_keys: "x11_loop C ps = (ps', es) \<Longrightarrow> map fst ps' = map fst ps"
  by (induction ps arbitrary: ps' es) (auto split: prod.splits)

lemma update_not_contained:
  "\<not> contains m k \<Longrightarrow> AList.update k v m = m @ [(k, v)]"
  by (simp add: contains_def update_absent)

lemma accept_failed_plugins [simp]:
  "active_plugins (accept_failed error s) = active_plugins s"
  by (simp add: accept_failed_def stop_def emit_def split: option.splits)

lemma emit_plugins [simp]: "active_plugins (emit es s) = active_plugins s"
  by (simp add: emit_def)

lemma host_plugin_failure_plugins:
  "host_plugin pid conn s = Inl (f, s') \<Longrightarrow> active_plugins s' = active_plugins s"
  by (auto simp: host_plugin_def accept_requests_def Let_def
           split: sum.splits option.splits if_splits construct_result.splits)

lemma host_plugin_success_plugins:
  "host_plugin pid conn s = Inr s' \<Longrightarrow>
     active_plugins s' = active_plugins s
     \<or> (\<exists>request bridge. read_object conn = Inr request
           \<and> \<not> contains (active_plugins s) request
           \<and> active_plugins s' = active_plugins s @ [(request, Thread request, bridge)])"
  by (auto simp: host_plugin_def accept_requests_def Let_def update_not_contained
           split: sum.splits option.splits if_splits construct_result.splits)

lemma accept_handler_failure_plugins:
  "accept_handler pid conn s = Inl (f, s') \<Longrightarrow> active_plugins s' = active_plugins s"
  unfolding accept_handler_def by (drule host_plugin_failure_plugins) simp

lemma accept_handler_success_plugins:
  "accept_handler pid conn s = Inr s' \<Longrightarrow>
     active_plugins s' = active_plugins s
     \<or> (\<exists>request bridge. read_object conn = Inr request
           \<and> \<not> contains (active_plugins s) request
           \<and> active_plugins s' = active_plugins s @ [(request, Thread request, bridge)])"
  unfolding accept_handler_def by (drule host_plugin_success_plugins) simp

lemma contains_iff: "contains m k \<longleftrightarrow> k \<in> fst ` set m"
  by (simp add: contains_def map_of_eq_None_iff)

lemma accept_handler_keys:
  assumes "distinct (map fst (active_plugins s))"
  shows "distinct (map fst (active_plugins (state_of (accept_handler pid conn s))))"
proof (cases "accept_handler pid conn s")
  case (Inl a)
  then obtain f s' where "accept_handler pid conn s = Inl (f, s')" by (cases a) auto
  with assms show ?thesis
    using accept_handler_failure_plugins [of pid conn s f s'] by (simp add: state_of_def)
next
  case (Inr s')
  with assms show ?thesis
    using accept_handler_success_plugins [of pid conn s s']
    by (auto simp: state_of_def contains_iff)
qed

lemma shutdown_timer_handler_plugins [simp]:
  "active_plugins (shutdown_timer_handler error s) = active_plugins s"
  by (simp add: shutdown_timer_handler_def stop_def emit_def)

lemma handle_plugin_dispatch_plugins:
  "active_plugins (state_of (handle_plugin_dispatch request now s)) = active_plugins s"
  by (simp add: handle_plugin_dispatch_def state_of_def arm_shutdown_timer_def emit_def Let_def
           split: option.splits)

lemma shutdown_timer_expires_plugins:
  "active_plugins (shutdown_timer_expires now s) = active_plugins s"
  by (simp add: shutdown_timer_expires_def split: option.splits)

lemma events_timer_handler_keys:
  "map fst (active_plugins (events_timer_handler C error now s)) = map fst (active_plugins s)"
  by (auto simp: events_timer_handler_def async_handle_events_def emit_def Let_def
           dest: x11_loop_keys split: prod.splits)

lemma events_timer_expires_keys:
  "map fst (active_plugins (events_timer_expires C now s)) = map fst (active_plugins s)"
  by (simp add: events_timer_expires_def events_timer_handler_keys)

lemma step_keys:
  assumes "distinct (map fst (active_plugins s))"
  shows "distinct (map fst (active_plugins (state_of (step pid C ev s))))"
proof (cases ev)
  case (Accepted conn)
  with assms accept_handler_keys [OF assms, of pid conn] show ?thesis
    by (simp add: step_def state_of_def)
next
  case (PluginExited request now)
  with assms show ?thesis by (simp add: step_def handle_plugin_dispatch_plugins)
next
  case (RunPosted request)
  with assms show ?thesis by (simp add: step_def state_of_def erase_task_def distinct_delete)
next
  case (ShutdownClock now)
  with assms show ?thesis by (simp add: step_def state_of_def shutdown_timer_expires_plugins)
next
  case (EventsClock now)
  with assms show ?thesis by (simp add: step_def state_of_def events_timer_expires_keys)
qed

lemma run_keys:
  "distinct (map fst (active_plugins s)) \<Longrightarrow>
   distinct (map fst (active_plugins (state_of (run pid C evs s))))"
proof (induction evs arbitrary: s)
  case Nil
  then show ?case by (simp add: state_of_def)
next
  case (Cons ev evs)
  show ?case
  proof (cases "step pid C ev s")
    case (Inl a)
    with step_keys [OF Cons.prems, of pid C ev] show ?thesis by (simp add: state_of_def)
  next
    case (Inr s')
    with step_keys [OF Cons.prems, of pid C ev]
    have "distinct (map fst (active_plugins s'))" by (simp add: state_of_def)
    from Cons.IH [OF this] Inr show ?thesis by simp
  qed
qed

lemma accept_handler_duplicate_key:
  assumes "read_object conn = Inr request" and "write_object conn = None"
    and "contains (active_plugins s) request"
  shows "\<exists>s'. accept_handler pid conn s = Inl (AssertionFailed, s')
              \<and> active_plugins s' = active_plugins s"
  using assms by (simp add: accept_handler_def host_plugin_def Let_def)

text \<open>
  Claim C2. Whatever sequence of connections, plugin exits, posted erasures and timer
  expiries the process goes through, no request is in \<^verbatim>\<open>active_plugins\<close> twice. The
  accept handler inserts a request only when it is absent, as a new entry. When the request
  read from an accepted connection is already there, the \<^verbatim>\<open>assert\<close> fails: the handler
  does not end normally, nothing is caught, and the registry is as it was.
\<close>

theorem registry_never_holds_a_key_twice:
  "distinct (map fst (active_plugins (state_of (run pid C evs (initial queue)))))
   \<and> (distinct (map fst (active_plugins s))
        \<longrightarrow> distinct (map fst (active_plugins (state_of (run pid C evs s)))))
   \<and> (read_object conn = Inr request \<and> write_object conn = None
        \<and> contains (active_plugins s) request
        \<longrightarrow> (\<exists>s'. accept_handler pid conn s = Inl (AssertionFailed, s')
                   \<and> active_plugins s' = active_plugins s))
   \<and> (accept_handler pid conn s = Inr s' \<and> active_plugins s' \<noteq> active_plugins s
        \<longrightarrow> (\<exists>request bridge. read_object conn = Inr request
                   \<and> \<not> contains (active_plugins s) request
                   \<and> active_plugins s' = active_plugins s @ [(request, Thread request, bridge)]))"
proof (intro conjI impI)
  have "distinct (map fst (active_plugins (initial queue :: 'a group_bridge)))"
    by (simp add: initial_def)
  then show "distinct (map fst (active_plugins (state_of (run pid C evs (initial queue)))))"
    by (rule run_keys)
next
  assume "distinct (map fst (active_plugins s))"
  then show "distinct (map fst (active_plugins (state_of (run pid C evs s))))"
    by (rule run_keys)
next
  assume "read_object conn = Inr request \<and> write_object conn = None
        \<and> contains (active_plugins s) request"
  then show "\<exists>s'. accept_handler pid conn s = Inl (AssertionFailed, s')
                   \<and> active_plugins s' = active_plugins s"
    using accept_handler_duplicate_key by blast
next
  assume "accept_handler pid conn s = Inr s' \<and> active_plugins s' \<noteq> active_plugins s"
  then show "\<exists>request bridge. read_object conn = Inr request
                   \<and> \<not> contains (active_plugins s) request
                   \<and> active_plugins s' = active_plugins s @ [(request, Thread request, bridge)]"
    using accept_handler_success_plugins [of pid conn s s'] by blast
qed

theorem registry_never_holds_a_key_twice_witness:
  "distinct (map fst (active_plugins hosting_a))
   \<and> distinct (map fst (active_plugins (state_of
         (run 4242 quiet_plugins
            [Accepted (connection_for plugin_b (Constructed 0)),
             PluginExited plugin_a 1000, RunPosted plugin_a,
             Accepted (connection_for plugin_a (Constructed 0))] hosting_a))))
   \<and> read_object (connection_for plugin_a (Constructed 0)) = Inr plugin_a
   \<and> write_object (connection_for plugin_a (Constructed 0)) = None
   \<and> contains (active_plugins hosting_a) plugin_a
   \<and> (\<exists>s'. accept_handler 4242 (connection_for plugin_a (Constructed 0)) hosting_a
               = Inl (AssertionFailed, s')
             \<and> active_plugins s' = active_plugins hosting_a)
   \<and> accept_handler 4242 (connection_for plugin_b (Constructed 0)) hosting_a
       = Inr (state_of (accept_handler 4242 (connection_for plugin_b (Constructed 0)) hosting_a))
   \<and> active_plugins
         (state_of (accept_handler 4242 (connection_for plugin_b (Constructed 0)) hosting_a))
       \<noteq> active_plugins hosting_a
   \<and> (\<exists>request bridge.
         read_object (connection_for plugin_b (Constructed 0)) = Inr request
         \<and> \<not> contains (active_plugins hosting_a) request
         \<and> active_plugins
              (state_of (accept_handler 4242 (connection_for plugin_b (Constructed 0)) hosting_a))
            = active_plugins hosting_a @ [(request, Thread request, bridge)])"
proof -
  note inst = registry_never_holds_a_key_twice
    [where s = hosting_a and pid = 4242 and C = quiet_plugins and queue = "[]"]
  have d: "distinct (map fst (active_plugins hosting_a))"
    by (simp add: hosting_a_def initial_def)
  have r: "distinct (map fst (active_plugins (state_of
         (run 4242 quiet_plugins
            [Accepted (connection_for plugin_b (Constructed 0)),
             PluginExited plugin_a 1000, RunPosted plugin_a,
             Accepted (connection_for plugin_a (Constructed 0))] hosting_a))))"
    by (rule inst [THEN conjunct2, THEN conjunct1, THEN mp, OF d])
  have h1: "read_object (connection_for plugin_a (Constructed 0)) = Inr plugin_a"
    and h2: "write_object (connection_for plugin_a (Constructed 0)) = None"
    and h3: "contains (active_plugins hosting_a) plugin_a"
    by (simp_all add: connection_for_def hosting_a_def contains_def)
  have a: "\<exists>s'. accept_handler 4242 (connection_for plugin_a (Constructed 0)) hosting_a
               = Inl (AssertionFailed, s')
             \<and> active_plugins s' = active_plugins hosting_a"
    by (rule inst [THEN conjunct2, THEN conjunct2, THEN conjunct1, THEN mp,
                  OF conjI, OF h1 conjI, OF h2 h3])
  have nb: "\<not> contains (active_plugins hosting_a) plugin_b"
    by (simp add: hosting_a_def contains_def plugin_a_def plugin_b_def)
  have i1: "accept_handler 4242 (connection_for plugin_b (Constructed 0)) hosting_a
       = Inr (state_of (accept_handler 4242 (connection_for plugin_b (Constructed 0)) hosting_a))"
    using nb
    by (simp add: accept_handler_def host_plugin_def accept_failed_def connection_for_def
          state_of_def Let_def)
  have i2: "active_plugins
         (state_of (accept_handler 4242 (connection_for plugin_b (Constructed 0)) hosting_a))
       \<noteq> active_plugins hosting_a"
    using nb
    by (simp add: accept_handler_def host_plugin_def accept_failed_def connection_for_def
          state_of_def Let_def accept_requests_def update_not_contained)
  have b: "\<exists>request bridge.
         read_object (connection_for plugin_b (Constructed 0)) = Inr request
         \<and> \<not> contains (active_plugins hosting_a) request
         \<and> active_plugins
              (state_of (accept_handler 4242 (connection_for plugin_b (Constructed 0)) hosting_a))
            = active_plugins hosting_a @ [(request, Thread request, bridge)]"
    by (rule inst [THEN conjunct2, THEN conjunct2, THEN conjunct2, THEN mp, OF conjI, OF i1 i2])
  from d r h1 h2 h3 a i1 i2 b show ?thesis by (intro conjI)
qed

subsection \<open>A plugin that fails to initialize\<close>

lemma host_plugin_runtime_error:
  assumes "read_object conn = Inr request" and "write_object conn = None"
    and "\<not> contains (active_plugins s) request"
    and "make_bridge conn (plugin_path request) (endpoint_base_dir request) = RuntimeError what"
  shows "host_plugin pid conn s =
     Inr (emit [ReadObject, WriteObject pid, Log (received_request_line request),
                ConstructBridge (plugin_path request) (endpoint_base_dir request),
                Log (error_initializing_line request), Log what, AsyncAccept] s)"
  using assms by (simp add: host_plugin_def Let_def accept_requests_def emit_def)

lemma host_plugin_constructed:
  assumes "read_object conn = Inr request" and "write_object conn = None"
    and "\<not> contains (active_plugins s) request"
    and "make_bridge conn (plugin_path request) (endpoint_base_dir request) = Constructed bridge"
  shows "host_plugin pid conn s =
     Inr ((emit [ReadObject, WriteObject pid, Log (received_request_line request),
                 ConstructBridge (plugin_path request) (endpoint_base_dir request),
                 Log (finished_initializing_line request), SpawnThread request,
                 AsyncAccept] s)
            \<lparr>active_plugins := active_plugins s @ [(request, Thread request, bridge)]\<rparr>)"
  using assms
  by (simp add: host_plugin_def Let_def accept_requests_def emit_def update_not_contained)

text \<open>
  Claim C5. An accepted connection whose request is read, answered and not yet hosted, and
  whose bridge fails to construct with an exception that the handler catches, that is,
  a \<^verbatim>\<open>std::runtime_error\<close> or an exception of a class derived from it, such as
  \<^verbatim>\<open>boost::system::system_error\<close>: the response with the process id was written before
  the construction was tried, the failure is logged with the \<^verbatim>\<open>what()\<close> of the
  exception, the registry is unchanged, the context keeps running and the acceptor is armed
  again; the handler of a later connection whose bridge constructs registers that plugin.
\<close>

theorem construction_failure_is_recoverable:
  "accept_error conn = None \<and> read_object conn = Inr request \<and> write_object conn = None
   \<and> \<not> contains (active_plugins s) request
   \<and> make_bridge conn (plugin_path request) (endpoint_base_dir request) = RuntimeError what
   \<longrightarrow> (\<exists>s'. accept_handler pid conn s = Inr s'
          \<and> effects s' = effects s
              @ [ReadObject, WriteObject pid, Log (received_request_line request),
                 ConstructBridge (plugin_path request) (endpoint_base_dir request),
                 Log (error_initializing_line request), Log what, AsyncAccept]
          \<and> active_plugins s' = active_plugins s
          \<and> context_stopped s' = context_stopped s
          \<and> (accept_error later = None \<and> read_object later = Inr request'
               \<and> write_object later = None
               \<and> \<not> contains (active_plugins s) request'
               \<and> make_bridge later (plugin_path request') (endpoint_base_dir request')
                   = Constructed bridge
              \<longrightarrow> (\<exists>s''. accept_handler pid later s' = Inr s''
                     \<and> active_plugins s''
                         = active_plugins s @ [(request', Thread request', bridge)]
                     \<and> effects s'' = effects s'
                         @ [ReadObject, WriteObject pid, Log (received_request_line request'),
                            ConstructBridge (plugin_path request') (endpoint_base_dir request'),
                            Log (finished_initializing_line request'), SpawnThread request',
                            AsyncAccept])))"
proof (intro impI, elim conjE)
  assume h: "accept_error conn = None" "read_object conn = Inr request"
    "write_object conn = None" "\<not> contains (active_plugins s) request"
    "make_bridge conn (plugin_path request) (endpoint_base_dir request) = RuntimeError what"
  let ?s' = "emit [ReadObject, WriteObject pid, Log (received_request_line request),
                ConstructBridge (plugin_path request) (endpoint_base_dir request),
                Log (error_initializing_line request), Log what, AsyncAccept] s"
  have first: "accept_handler pid conn s = Inr ?s'"
    using h host_plugin_runtime_error [of conn request s what pid]
    by (simp add: accept_handler_def accept_failed_def)
  have second: "\<exists>s''. accept_handler pid later ?s' = Inr s''
                     \<and> active_plugins s''
                         = active_plugins s @ [(request', Thread request', bridge)]
                     \<and> effects s'' = effects ?s'
                         @ [ReadObject, WriteObject pid, Log (received_request_line request'),
                            ConstructBridge (plugin_path request') (endpoint_base_dir request'),
                            Log (finished_initializing_line request'), SpawnThread request',
                            AsyncAccept]"
    if l: "accept_error later = None \<and> read_object later = Inr request'
               \<and> write_object later = None
               \<and> \<not> contains (active_plugins s) request'
               \<and> make_bridge later (plugin_path request') (endpoint_base_dir request')
                   = Constructed bridge"
  proof -
    from l have "\<not> contains (active_plugins ?s') request'" by simp
    with l show ?thesis
      using host_plugin_constructed [of later request' ?s' bridge pid]
      by (simp add: accept_handler_def accept_failed_def emit_def)
  qed
  show "\<exists>s'. accept_handler pid conn s = Inr s'
          \<and> effects s' = effects s
              @ [ReadObject, WriteObject pid, Log (received_request_line request),
                 ConstructBridge (plugin_path request) (endpoint_base_dir request),
                 Log (error_initializing_line request), Log what, AsyncAccept]
          \<and> active_plugins s' = active_plugins s
          \<and> context_stopped s' = context_stopped s
          \<and> (accept_error later = None \<and> read_object later = Inr request'
               \<and> write_object later = None
               \<and> \<not> contains (active_plugins s) request'
               \<and> make_bridge later (plugin_path request') (endpoint_base_dir request')
                   = Constructed bridge
              \<longrightarrow> (\<exists>s''. accept_handler pid later s' = Inr s''
                     \<and> active_plugins s''
                         = active_plugins s @ [(request', Thread request', bridge)]
                     \<and> effects s'' = effects s'
                         @ [ReadObject, WriteObject pid, Log (received_request_line request'),
                            ConstructBridge (plugin_path request') (endpoint_base_dir request'),
                            Log (finished_initializing_line request'), SpawnThread request',
                            AsyncAccept]))"
  proof (rule exI [of _ ?s'], intro conjI)
    show "accept_handler pid conn s = Inr ?s'" by (rule first)
    show "effects ?s' = effects s
              @ [ReadObject, WriteObject pid, Log (received_request_line request),
                 ConstructBridge (plugin_path request) (endpoint_base_dir request),
                 Log (error_initializing_line request), Log what, AsyncAccept]"
      by (simp add: emit_def)
    show "active_plugins ?s' = active_plugins s" by simp
    show "context_stopped ?s' = context_stopped s" by (simp add: emit_def)
    show "accept_error later = None \<and> read_object later = Inr request'
               \<and> write_object later = None
               \<and> \<not> contains (active_plugins s) request'
               \<and> make_bridge later (plugin_path request') (endpoint_base_dir request')
                   = Constructed bridge
              \<longrightarrow> (\<exists>s''. accept_handler pid later ?s' = Inr s''
                     \<and> active_plugins s''
                         = active_plugins s @ [(request', Thread request', bridge)]
                     \<and> effects s'' = effects ?s'
                         @ [ReadObject, WriteObject pid, Log (received_request_line request'),
                            ConstructBridge (plugin_path request') (endpoint_base_dir request'),
                            Log (finished_initializing_line request'), SpawnThread request',
                            AsyncAccept])"
      by (rule impI) (rule second)
  qed
qed

theorem construction_failure_is_recoverable_witness:
  "accept_error failing_to_load = None \<and> read_object failing_to_load = Inr plugin_a
   \<and> write_object failing_to_load = None
   \<and> \<not> contains (active_plugins (initial [] :: nat group_bridge)) plugin_a
   \<and> make_bridge failing_to_load (plugin_path plugin_a) (endpoint_base_dir plugin_a)
       = RuntimeError ''The plugin could not be loaded''
   \<and> (\<exists>s' s''. accept_handler 4242 failing_to_load (initial []) = Inr s'
         \<and> effects s'
             = [ReadObject, WriteObject 4242, Log (received_request_line plugin_a),
                ConstructBridge (plugin_path plugin_a) (endpoint_base_dir plugin_a),
                Log (error_initializing_line plugin_a),
                Log ''The plugin could not be loaded'', AsyncAccept]
         \<and> active_plugins s' = []
         \<and> accept_handler 4242 (connection_for plugin_b (Constructed 0)) s' = Inr s''
         \<and> active_plugins s'' = [(plugin_b, Thread plugin_b, 0)])"
proof -
  let ?s = "initial [] :: nat group_bridge"
  let ?later = "connection_for plugin_b (Constructed 0)"
  have h: "accept_error failing_to_load = None \<and> read_object failing_to_load = Inr plugin_a
     \<and> write_object failing_to_load = None
     \<and> \<not> contains (active_plugins ?s) plugin_a
     \<and> make_bridge failing_to_load (plugin_path plugin_a) (endpoint_base_dir plugin_a)
         = RuntimeError ''The plugin could not be loaded''"
    by (simp add: failing_to_load_def connection_for_def initial_def contains_def)
  have l: "accept_error ?later = None \<and> read_object ?later = Inr plugin_b
     \<and> write_object ?later = None
     \<and> \<not> contains (active_plugins ?s) plugin_b
     \<and> make_bridge ?later (plugin_path plugin_b) (endpoint_base_dir plugin_b) = Constructed 0"
    by (simp add: connection_for_def initial_def contains_def)
  from construction_failure_is_recoverable
         [where conn = failing_to_load and request = plugin_a and s = ?s and pid = 4242
            and what = "''The plugin could not be loaded''" and later = ?later
            and request' = plugin_b and bridge = 0, THEN mp, OF h]
  obtain s' where s': "accept_handler 4242 failing_to_load ?s = Inr s'"
      "effects s' = effects ?s
              @ [ReadObject, WriteObject 4242, Log (received_request_line plugin_a),
                 ConstructBridge (plugin_path plugin_a) (endpoint_base_dir plugin_a),
                 Log (error_initializing_line plugin_a),
                 Log ''The plugin could not be loaded'', AsyncAccept]"
      "active_plugins s' = active_plugins ?s"
    and later: "accept_error ?later = None \<and> read_object ?later = Inr plugin_b
               \<and> write_object ?later = None
               \<and> \<not> contains (active_plugins ?s) plugin_b
               \<and> make_bridge ?later (plugin_path plugin_b) (endpoint_base_dir plugin_b)
                   = Constructed 0
              \<longrightarrow> (\<exists>s''. accept_handler 4242 ?later s' = Inr s''
                     \<and> active_plugins s''
                         = active_plugins ?s @ [(plugin_b, Thread plugin_b, 0)]
                     \<and> effects s'' = effects s'
                         @ [ReadObject, WriteObject 4242, Log (received_request_line plugin_b),
                            ConstructBridge (plugin_path plugin_b) (endpoint_base_dir plugin_b),
                            Log (finished_initializing_line plugin_b), SpawnThread plugin_b,
                            AsyncAccept])"
    by blast
  from later [THEN mp, OF l] obtain s'' where
    s'': "accept_handler 4242 ?later s' = Inr s''"
      "active_plugins s'' = active_plugins ?s @ [(plugin_b, Thread plugin_b, 0)]"
    by blast
  have e: "effects ?s = []" "active_plugins ?s = []" by (simp_all add: initial_def)
  from s' s'' have "accept_handler 4242 failing_to_load (initial []) = Inr s'
         \<and> effects s'
             = [ReadObject, WriteObject 4242, Log (received_request_line plugin_a),
                ConstructBridge (plugin_path plugin_a) (endpoint_base_dir plugin_a),
                Log (error_initializing_line plugin_a),
                Log ''The plugin could not be loaded'', AsyncAccept]
         \<and> active_plugins s' = []
         \<and> accept_handler 4242 (connection_for plugin_b (Constructed 0)) s' = Inr s''
         \<and> active_plugins s'' = [(plugin_b, Thread plugin_b, 0)]"
    unfolding e by simp
  then have "\<exists>s' s''. accept_handler 4242 failing_to_load (initial []) = Inr s'
         \<and> effects s'
             = [ReadObject, WriteObject 4242, Log (received_request_line plugin_a),
                ConstructBridge (plugin_path plugin_a) (endpoint_base_dir plugin_a),
                Log (error_initializing_line plugin_a),
                Log ''The plugin could not be loaded'', AsyncAccept]
         \<and> active_plugins s' = []
         \<and> accept_handler 4242 (connection_for plugin_b (Constructed 0)) s' = Inr s''
         \<and> active_plugins s'' = [(plugin_b, Thread plugin_b, 0)]"
    by (intro exI)
  with h show ?thesis by (intro conjI) simp_all
qed

text \<open>
  A \<^verbatim>\<open>boost::system::system_error\<close> from the constructor is caught like any other
  \<^verbatim>\<open>std::runtime_error\<close>. An exception of another class is not: it leaves the handler,
  and the acceptor is not armed again.
\<close>

lemma system_error_from_constructor_is_caught:
  "accept_handler 4242 refused_by_sockets (initial [])
     = Inr ((initial [])
              \<lparr>effects := [ReadObject, WriteObject 4242, Log (received_request_line plugin_a),
                           ConstructBridge (plugin_path plugin_a) (endpoint_base_dir plugin_a),
                           Log (error_initializing_line plugin_a),
                           Log ''Connection refused'', AsyncAccept]\<rparr>)"
  by (simp add: accept_handler_def accept_failed_def host_plugin_def refused_by_sockets_def
        connection_for_def contains_def accept_requests_def emit_def initial_def)

lemma other_exception_leaves_handler:
  "accept_handler 4242 out_of_memory (initial [])
     = Inl (Unwind (OtherExn ''std::bad_alloc''),
            (initial [])
              \<lparr>effects := [ReadObject, WriteObject 4242, Log (received_request_line plugin_a),
                           ConstructBridge (plugin_path plugin_a)
                             (endpoint_base_dir plugin_a)]\<rparr>)"
  by (simp add: accept_handler_def accept_failed_def host_plugin_def out_of_memory_def
        connection_for_def contains_def emit_def initial_def)

subsection \<open>An accept that fails\<close>

text \<open>
  Claim C6. When the accept itself fails, the handler is to log the error, stop the
  context and do nothing more for that accept. The source logs and stops, and then goes on:
  it reads a request from the socket of the failed accept. Here that read throws, and the
  exception leaves the handler.
\<close>

theorem failed_accept_still_reads:
  "accept_handler 4242 failed_accept (initial [])
     = Inl (Unwind (SystemErrorExn (SystemError 9)),
            (initial [])
              \<lparr>effects := [Log ''Error while listening for incoming connections:'',
                           Log ''Bad file descriptor'', ContextStop, ReadObject],
                context_stopped := True\<rparr>)"
  by (simp add: accept_handler_def accept_failed_def host_plugin_def failed_accept_def
        stop_def emit_def initial_def)

text \<open>The same for every failed accept: the read follows the stop.\<close>

lemma failed_accept_goes_on:
  "accept_error conn = Some message \<Longrightarrow>
   \<exists>rest. effects (state_of (accept_handler pid conn s))
     = effects s @ [Log ''Error while listening for incoming connections:'', Log message,
                    ContextStop, ReadObject] @ rest"
  by (auto simp: accept_handler_def accept_failed_def host_plugin_def state_of_def Let_def
        stop_def emit_def accept_requests_def
      split: sum.splits option.splits construct_result.splits)

subsection \<open>One activation of the event loop\<close>

lemma message_loop_done:
  "\<not> i < max_win32_messages C \<Longrightarrow> message_loop C i queue = (queue, [])"
  by (subst message_loop.simps) simp

lemma message_loop_empty:
  "i < max_win32_messages C \<Longrightarrow> message_loop C i [] = ([], [PeekMessage None])"
  by (subst message_loop.simps) simp

lemma message_loop_message:
  "i < max_win32_messages C \<Longrightarrow>
   message_loop C i (m # rest) =
     (fst (message_loop C (i + 1) (rest @ window_procedure C m)),
      PeekMessage (Some m) # TranslateMessage m # DispatchMessage m
        # snd (message_loop C (i + 1) (rest @ window_procedure C m)))"
  by (subst message_loop.simps) (simp split: prod.splits)

lemma message_loop_dispatched:
  "length (dispatched (snd (message_loop C i queue))) \<le> nat (max_win32_messages C - i)
   \<and> translated (snd (message_loop C i queue)) = dispatched (snd (message_loop C i queue))
   \<and> taken_off_queue (snd (message_loop C i queue)) = dispatched (snd (message_loop C i queue))"
proof (induction C i queue rule: message_loop.induct)
  case (1 C i queue)
  show ?case
  proof (cases "i < max_win32_messages C")
    case False
    then show ?thesis by (simp add: message_loop_done)
  next
    case True
    show ?thesis
    proof (cases queue)
      case Nil
      with True show ?thesis by (simp add: message_loop_empty)
    next
      case (Cons m rest)
      from "1.IH" [OF True Cons] True
      have "length (dispatched (snd (message_loop C (i + 1) (rest @ window_procedure C m))))
              < nat (max_win32_messages C - i)"
        by linarith
      with "1.IH" [OF True Cons] True Cons show ?thesis
        by (simp add: message_loop_message)
    qed
  qed
qed

lemma message_loop_effects:
  "list_all is_message_effect (snd (message_loop C i queue))"
proof (induction C i queue rule: message_loop.induct)
  case (1 C i queue)
  show ?case
  proof (cases "i < max_win32_messages C")
    case False
    then show ?thesis by (simp add: message_loop_done)
  next
    case True
    show ?thesis
    proof (cases queue)
      case Nil
      with True show ?thesis by (simp add: message_loop_empty)
    next
      case (Cons m rest)
      from "1.IH" [OF True Cons] True Cons show ?thesis
        by (simp add: message_loop_message)
    qed
  qed
qed

lemma dispatched_append [simp]: "dispatched (xs @ ys) = dispatched xs @ dispatched ys"
  by (induction xs rule: dispatched.induct) simp_all

lemma dispatched_x11 [simp]: "dispatched (map (HandleX11 \<circ> f) ps) = []"
  by (induction ps) simp_all

lemma x11_loop_eq:
  "x11_loop C ps =
     (map (\<lambda>(parameters, thread, bridge). (parameters, thread, handle_x11_events C bridge)) ps,
      map (HandleX11 \<circ> fst) ps)"
  by (induction ps) (auto split: prod.splits)

lemma group_should_skip_iff:
  "fst (group_should_skip_message_loop C ps) \<longleftrightarrow>
     (\<exists>(parameters, thread, bridge) \<in> set ps. should_skip_message_loop C bridge)"
  by (induction ps) (auto split: prod.splits)

lemma group_should_skip_effects:
  "set (snd (group_should_skip_message_loop C ps)) \<subseteq> ShouldSkip ` fst ` set ps"
  by (induction ps) (auto split: prod.splits if_splits)

lemma dispatched_should_skip:
  "set es \<subseteq> range ShouldSkip \<Longrightarrow> dispatched es = []"
  by (induction es rule: dispatched.induct) auto

lemma events_timer_handler_eq:
  "events_timer_handler C False now s =
     (let plugins = map (\<lambda>(parameters, thread, bridge).
                           (parameters, thread, handle_x11_events C bridge)) (active_plugins s);
          veto = group_should_skip_message_loop C plugins;
          drain = (if fst veto then (message_queue s, [])
                   else message_loop C 0 (message_queue s))
      in async_handle_events now
           (s\<lparr>active_plugins := plugins,
              effects := effects s @ map (HandleX11 \<circ> fst) (active_plugins s)
                         @ snd veto @ snd drain,
              message_queue := fst drain\<rparr>))"
  by (simp add: events_timer_handler_def x11_loop_eq emit_def Let_def split: prod.splits)

lemma async_handle_events_fields [simp]:
  "active_plugins (async_handle_events now s) = active_plugins s"
  "message_queue (async_handle_events now s) = message_queue s"
  "effects (async_handle_events now s)
     = effects s @ [EventsExpiresAt (events_timer_expiry (async_handle_events now s))]"
  by (simp_all add: async_handle_events_def emit_def Let_def)

text \<open>
  Claim C7. In an activation of the event loop (the wait of the events timer completes
  without error), \<^verbatim>\<open>handle_x11_events\<close> is called on every active plugin, whatever the
  plugins answer later; then the bridges, as the X11 handling left them, are asked whether
  to skip the message loop; then come the effects on the message queue, and last the timer
  is set again. When some plugin asks to skip, the message queue is not touched: no message
  is taken off, translated or dispatched.
\<close>

theorem x11_then_veto_then_messages:
  "\<exists>veto drain.
     effects (events_timer_handler C False now s)
       = effects s @ map (HandleX11 \<circ> fst) (active_plugins s) @ veto @ drain
         @ [EventsExpiresAt (events_timer_expiry (events_timer_handler C False now s))]
     \<and> active_plugins (events_timer_handler C False now s)
         = map (\<lambda>(parameters, thread, bridge).
                  (parameters, thread, handle_x11_events C bridge)) (active_plugins s)
     \<and> set veto \<subseteq> ShouldSkip ` fst ` set (active_plugins s)
     \<and> list_all is_message_effect drain
     \<and> ((\<exists>(parameters, thread, bridge) \<in> set (active_plugins (events_timer_handler C False now s)).
            should_skip_message_loop C bridge)
          \<longrightarrow> drain = [] \<and> message_queue (events_timer_handler C False now s) = message_queue s)
     \<and> (\<not> (\<exists>(parameters, thread, bridge) \<in> set (active_plugins (events_timer_handler C False now s)).
            should_skip_message_loop C bridge)
          \<longrightarrow> (message_queue (events_timer_handler C False now s), drain)
                = message_loop C 0 (message_queue s))"
proof -
  let ?plugins = "map (\<lambda>(parameters, thread, bridge).
                    (parameters, thread, handle_x11_events C bridge)) (active_plugins s)"
  let ?veto = "group_should_skip_message_loop C ?plugins"
  let ?drain = "if fst ?veto then (message_queue s, [])
                else message_loop C 0 (message_queue s)"
  have keys: "fst ` set ?plugins = fst ` set (active_plugins s)"
    by force
  have v: "set (snd ?veto) \<subseteq> ShouldSkip ` fst ` set (active_plugins s)"
    using group_should_skip_effects [of C ?plugins] unfolding keys .
  have d: "list_all is_message_effect (snd ?drain)"
    by (simp add: message_loop_effects)
  have yes: "snd ?drain = []
      \<and> message_queue (events_timer_handler C False now s) = message_queue s"
    if "\<exists>(parameters, thread, bridge) \<in> set (active_plugins (events_timer_handler C False now s)).
            should_skip_message_loop C bridge"
  proof -
    from that have "fst ?veto"
      by (simp add: events_timer_handler_eq Let_def group_should_skip_iff)
    then show ?thesis by (simp add: events_timer_handler_eq Let_def)
  qed
  have no: "(message_queue (events_timer_handler C False now s), snd ?drain)
                = message_loop C 0 (message_queue s)"
    if "\<not> (\<exists>(parameters, thread, bridge) \<in> set (active_plugins (events_timer_handler C False now s)).
            should_skip_message_loop C bridge)"
  proof -
    from that have "\<not> fst ?veto"
      by (simp add: events_timer_handler_eq Let_def group_should_skip_iff)
    then show ?thesis by (simp add: events_timer_handler_eq Let_def)
  qed
  show ?thesis
  proof (rule exI [of _ "snd ?veto"], rule exI [of _ "snd ?drain"], intro conjI)
    show "effects (events_timer_handler C False now s)
       = effects s @ map (HandleX11 \<circ> fst) (active_plugins s) @ snd ?veto @ snd ?drain
         @ [EventsExpiresAt (events_timer_expiry (events_timer_handler C False now s))]"
      by (simp add: events_timer_handler_eq Let_def)
    show "active_plugins (events_timer_handler C False now s) = ?plugins"
      by (simp add: events_timer_handler_eq Let_def)
    show "set (snd ?veto) \<subseteq> ShouldSkip ` fst ` set (active_plugins s)" by (rule v)
    show "list_all is_message_effect (snd ?drain)" by (rule d)
    show "(\<exists>(parameters, thread, bridge) \<in> set (active_plugins (events_timer_handler C False now s)).
            should_skip_message_loop C bridge)
          \<longrightarrow> snd ?drain = []
              \<and> message_queue (events_timer_handler C False now s) = message_queue s"
      by (rule impI) (rule yes)
    show "\<not> (\<exists>(parameters, thread, bridge) \<in> set (active_plugins (events_timer_handler C False now s)).
            should_skip_message_loop C bridge)
          \<longrightarrow> (message_queue (events_timer_handler C False now s), snd ?drain)
                = message_loop C 0 (message_queue s)"
      by (rule impI) (rule no)
  qed
qed

lemma modal_activation:
  "events_timer_handler modal_plugins False 1000 hosting_two
     = hosting_two
         \<lparr>active_plugins := [(plugin_a, Thread plugin_a, 1), (plugin_b, Thread plugin_b, 2)],
           effects := [HandleX11 plugin_a, HandleX11 plugin_b,
                       ShouldSkip plugin_a, ShouldSkip plugin_b, EventsExpiresAt 33000000],
           events_timer_expiry := 33000000, events_timer_waiting := True\<rparr>"
  by (simp add: events_timer_handler_def hosting_two_def initial_def modal_plugins_def emit_def
        async_handle_events_def next_expiry_def std_max_def event_loop_interval_def
        minimum_slack_def)

lemma quiet_activation:
  "events_timer_handler quiet_plugins False 1000 hosting_two
     = hosting_two
         \<lparr>active_plugins := [(plugin_a, Thread plugin_a, 1), (plugin_b, Thread plugin_b, 2)],
           effects := [HandleX11 plugin_a, HandleX11 plugin_b,
                       ShouldSkip plugin_a, ShouldSkip plugin_b,
                       PeekMessage (Some 7), TranslateMessage 7, DispatchMessage 7,
                       PeekMessage (Some 8), TranslateMessage 8, DispatchMessage 8,
                       PeekMessage None, EventsExpiresAt 33000000],
           events_timer_expiry := 33000000, events_timer_waiting := True,
           message_queue := []\<rparr>"
  by (simp add: events_timer_handler_def hosting_two_def initial_def quiet_plugins_def emit_def
        async_handle_events_def next_expiry_def std_max_def event_loop_interval_def
        minimum_slack_def message_loop_message message_loop_empty)

lemma flooded_activation:
  "events_timer_handler flooding_plugins False 1000 flooded
     = flooded
         \<lparr>active_plugins := [(plugin_a, Thread plugin_a, 1)],
           effects := [HandleX11 plugin_a, ShouldSkip plugin_a,
                       PeekMessage (Some 7), TranslateMessage 7, DispatchMessage 7,
                       PeekMessage (Some 7), TranslateMessage 7, DispatchMessage 7,
                       PeekMessage (Some 7), TranslateMessage 7, DispatchMessage 7,
                       EventsExpiresAt 33000000],
           events_timer_expiry := 33000000, events_timer_waiting := True,
           message_queue := [7, 7, 7, 7]\<rparr>"
  by (simp add: events_timer_handler_def flooded_def initial_def flooding_plugins_def emit_def
        async_handle_events_def next_expiry_def std_max_def event_loop_interval_def
        minimum_slack_def message_loop_message message_loop_done)

theorem x11_then_veto_then_messages_witness:
  "(\<exists>(parameters, thread, bridge)
       \<in> set (active_plugins (events_timer_handler modal_plugins False 1000 hosting_two)).
      should_skip_message_loop modal_plugins bridge)
   \<and> message_queue (events_timer_handler modal_plugins False 1000 hosting_two) = [7, 8]
   \<and> effects (events_timer_handler modal_plugins False 1000 hosting_two)
       = [HandleX11 plugin_a, HandleX11 plugin_b, ShouldSkip plugin_a, ShouldSkip plugin_b,
          EventsExpiresAt 33000000]
   \<and> \<not> (\<exists>(parameters, thread, bridge)
          \<in> set (active_plugins (events_timer_handler quiet_plugins False 1000 hosting_two)).
         should_skip_message_loop quiet_plugins bridge)
   \<and> (\<exists>drain. (message_queue (events_timer_handler quiet_plugins False 1000 hosting_two), drain)
                = message_loop quiet_plugins 0 [7, 8])"
proof -
  have q: "message_queue hosting_two = [7, 8]" by (simp add: hosting_two_def initial_def)
  have h1: "\<exists>(parameters, thread, bridge)
       \<in> set (active_plugins (events_timer_handler modal_plugins False 1000 hosting_two)).
      should_skip_message_loop modal_plugins bridge"
    by (simp add: modal_activation) (simp add: modal_plugins_def)
  from x11_then_veto_then_messages [of modal_plugins 1000 hosting_two] h1
  have c1: "message_queue (events_timer_handler modal_plugins False 1000 hosting_two) = [7, 8]"
    unfolding q by blast
  have e1: "effects (events_timer_handler modal_plugins False 1000 hosting_two)
       = [HandleX11 plugin_a, HandleX11 plugin_b, ShouldSkip plugin_a, ShouldSkip plugin_b,
          EventsExpiresAt 33000000]"
    by (simp add: modal_activation)
  have h2: "\<not> (\<exists>(parameters, thread, bridge)
          \<in> set (active_plugins (events_timer_handler quiet_plugins False 1000 hosting_two)).
         should_skip_message_loop quiet_plugins bridge)"
    by (simp add: quiet_activation) (simp add: quiet_plugins_def)
  from x11_then_veto_then_messages [of quiet_plugins 1000 hosting_two] h2
  have c2: "\<exists>drain. (message_queue (events_timer_handler quiet_plugins False 1000 hosting_two), drain)
                = message_loop quiet_plugins 0 [7, 8]"
    unfolding q by blast
  from h1 c1 e1 h2 c2 show ?thesis by (intro conjI)
qed

subsection \<open>The limit on the messages handled at once\<close>

lemma dispatched_all_x11: "dispatched (map (HandleX11 \<circ> fst) ps) = []"
  by (induction ps) simp_all

lemma translated_append [simp]: "translated (xs @ ys) = translated xs @ translated ys"
  by (induction xs rule: translated.induct) simp_all

lemma translated_all_x11: "translated (map (HandleX11 \<circ> fst) ps) = []"
  by (induction ps) simp_all

lemma translated_should_skip:
  "set es \<subseteq> ShouldSkip ` A \<Longrightarrow> translated es = []"
  by (induction es rule: translated.induct) auto

lemma dispatched_should_skip':
  "set es \<subseteq> ShouldSkip ` A \<Longrightarrow> dispatched es = []"
  by (induction es rule: dispatched.induct) auto

lemma new_effects_events_timer_handler:
  "new_effects s (events_timer_handler C False now s)
     = map (HandleX11 \<circ> fst) (active_plugins s)
       @ snd (group_should_skip_message_loop C (active_plugins (events_timer_handler C False now s)))
       @ snd (if fst (group_should_skip_message_loop C
                        (active_plugins (events_timer_handler C False now s)))
              then (message_queue s, [])
              else message_loop C 0 (message_queue s))
       @ [EventsExpiresAt (events_timer_expiry (events_timer_handler C False now s))]"
  by (simp add: new_effects_def events_timer_handler_eq Let_def)

text \<open>
  Claim C8. Whatever the message queue holds and whatever handling a message posts, the
  messages dispatched in one call of the handler of the events timer are at most
  \<^verbatim>\<open>max_win32_messages\<close> (none for a limit below one), each of them translated first;
  the loop, from any value of its counter, dispatches at most what is left of the limit.
  The loop is a total function: its counter rises towards the limit at every round.
\<close>

theorem messages_per_activation_bounded:
  "length (dispatched (new_effects s (events_timer_handler C error now s)))
     \<le> nat (max_win32_messages C)
   \<and> translated (new_effects s (events_timer_handler C error now s))
       = dispatched (new_effects s (events_timer_handler C error now s))
   \<and> length (dispatched (snd (message_loop C i queue))) \<le> nat (max_win32_messages C - i)"
proof (cases error)
  case True
  then show ?thesis
    using message_loop_dispatched [of C i queue]
    by (simp add: events_timer_handler_def new_effects_def)
next
  case False
  let ?h = "events_timer_handler C False now s"
  let ?veto = "group_should_skip_message_loop C (active_plugins ?h)"
  have v: "set (snd ?veto) \<subseteq> ShouldSkip ` fst ` set (active_plugins ?h)"
    by (rule group_should_skip_effects)
  from message_loop_dispatched [of C 0 "message_queue s"]
       message_loop_dispatched [of C i queue] False
  show ?thesis
    by (simp add: new_effects_events_timer_handler dispatched_all_x11 translated_all_x11
          dispatched_should_skip' [OF v] translated_should_skip [OF v])
qed

theorem messages_per_activation_bounded_witness:
  "dispatched (new_effects flooded (events_timer_handler flooding_plugins False 1000 flooded))
     = [7, 7, 7]
   \<and> message_queue (events_timer_handler flooding_plugins False 1000 flooded) = [7, 7, 7, 7]
   \<and> max_win32_messages flooding_plugins = 3
   \<and> length (dispatched
         (new_effects flooded (events_timer_handler flooding_plugins False 1000 flooded)))
       \<le> nat (max_win32_messages flooding_plugins)"
proof -
  have a: "dispatched (new_effects flooded (events_timer_handler flooding_plugins False 1000 flooded))
     = [7, 7, 7]"
    by (simp add: flooded_activation new_effects_def) (simp add: flooded_def initial_def)
  have b: "message_queue (events_timer_handler flooding_plugins False 1000 flooded) = [7, 7, 7, 7]"
    by (simp add: flooded_activation)
  have c: "max_win32_messages flooding_plugins = 3" by (simp add: flooding_plugins_def)
  have d: "length (dispatched
         (new_effects flooded (events_timer_handler flooding_plugins False 1000 flooded)))
       \<le> nat (max_win32_messages flooding_plugins)"
    by (rule messages_per_activation_bounded
          [where s = flooded and C = flooding_plugins and error = False and now = 1000
             and i = 0 and queue = "[]", THEN conjunct1])
  from a b c d show ?thesis by (intro conjI)
qed

subsection \<open>The expiry of the events timer\<close>

lemma sint_add_in_range:
  fixes a b :: "64 word"
  assumes "sint a + sint b < 2 ^ 63" and "- (2 ^ 63) \<le> sint a + sint b"
  shows "sint (a + b) = sint a + sint b"
  using assms by (simp add: sint_word_ariths signed_take_bit_int_eq_self)

lemma sint_event_loop_interval: "sint event_loop_interval = 33000000"
  by (simp add: event_loop_interval_def)

lemma sint_minimum_slack: "sint minimum_slack = 5000000"
  by (simp add: minimum_slack_def)

lemma sint_lower: "- (2 ^ 63) \<le> sint (a :: 64 word)"
  using sint_ge [of a] by simp

lemma sint_next_expiry:
  assumes "sint expiry + 33000000 < 2 ^ 63" and "sint now + 5000000 < 2 ^ 63"
  shows "sint (next_expiry expiry now) = max (sint expiry + 33000000) (sint now + 5000000)"
proof -
  have a: "sint (expiry + event_loop_interval) = sint expiry + 33000000"
    using assms(1) sint_lower [of expiry]
    by (simp add: sint_add_in_range sint_event_loop_interval)
  have b: "sint (now + minimum_slack) = sint now + 5000000"
    using assms(2) sint_lower [of now]
    by (simp add: sint_add_in_range sint_minimum_slack)
  show ?thesis
    by (simp add: next_expiry_def std_max_def word_sless_alt a b max_def)
qed

lemma readings_follow_expiries:
  "readings_follow expiry nows \<Longrightarrow>
     successively (\<lambda>a b. sint a + 33000000 \<le> sint b) (expiry # expiries expiry nows)
     \<and> list_all2 (\<lambda>d now. sint now + 5000000 \<le> sint d) (expiries expiry nows) nows"
proof (induction nows arbitrary: expiry)
  case Nil
  then show ?case by simp
next
  case (Cons now nows)
  then have r: "sint expiry \<le> sint now" "sint now < 2 ^ 63 - 33000000"
    and rest: "readings_follow (next_expiry expiry now) nows"
    by simp_all
  from r have "sint (next_expiry expiry now) = max (sint expiry + 33000000) (sint now + 5000000)"
    by (intro sint_next_expiry) simp_all
  with Cons.IH [OF rest] show ?case by simp
qed

lemma successively_gap_sorted:
  "successively (\<lambda>a b. sint a + 33000000 \<le> sint b) (xs :: 64 word list) \<Longrightarrow>
   sorted_wrt (\<lambda>a b. sint a < sint b) xs"
proof (induction xs rule: induct_list012)
  case 1
  then show ?case by simp
next
  case (2 x)
  then show ?case by simp
next
  case (3 x y zs)
  then have xy: "sint x + 33000000 \<le> sint y" and s: "sorted_wrt (\<lambda>a b. sint a < sint b) (y # zs)"
    by simp_all
  from s have "\<forall>z \<in> set zs. sint y < sint z" by simp
  with xy have "\<forall>z \<in> set (y # zs). sint x < sint z" by fastforce
  with s show ?case by simp
qed

text \<open>
  Claim C4. \<^verbatim>\<open>async_handle_events\<close> sets the expiry of the events timer to the larger of
  the last expiry plus the interval of 33 milliseconds and the reading of the clock plus 5
  milliseconds. As long as neither sum leaves the 64 bits of the clock (292 years), this is
  the maximum of the two sums as integers, it lies after the last expiry, and at least 5
  milliseconds after the reading of the clock. Over a run in which each reading is taken
  once the wait for the last expiry has completed, however late, the expiries rise
  strictly, two expiries in a row are at least 33 milliseconds apart, and each expiry is at
  least 5 milliseconds after the reading that set it.
\<close>

theorem expiry_is_max_and_advances:
  "events_timer_expiry (async_handle_events now s) = next_expiry (events_timer_expiry s) now
   \<and> next_expiry expiry now
     = (if expiry + event_loop_interval <s now + minimum_slack then now + minimum_slack
        else expiry + event_loop_interval)
   \<and> (sint expiry + 33000000 < 2 ^ 63 \<and> sint now + 5000000 < 2 ^ 63
        \<longrightarrow> sint (next_expiry expiry now) = max (sint expiry + 33000000) (sint now + 5000000)
            \<and> sint expiry < sint (next_expiry expiry now)
            \<and> sint now + 5000000 \<le> sint (next_expiry expiry now))
   \<and> (readings_follow expiry nows
        \<longrightarrow> sorted_wrt (\<lambda>a b. sint a < sint b) (expiry # expiries expiry nows)
            \<and> successively (\<lambda>a b. sint a + 33000000 \<le> sint b) (expiry # expiries expiry nows)
            \<and> list_all2 (\<lambda>d now. sint now + 5000000 \<le> sint d) (expiries expiry nows) nows)"
proof (intro conjI impI)
  show "events_timer_expiry (async_handle_events now s)
          = next_expiry (events_timer_expiry s) now"
    by (simp add: async_handle_events_def emit_def Let_def)
next
  show "next_expiry expiry now
     = (if expiry + event_loop_interval <s now + minimum_slack then now + minimum_slack
        else expiry + event_loop_interval)"
    by (simp add: next_expiry_def std_max_def)
next
  assume h: "sint expiry + 33000000 < 2 ^ 63 \<and> sint now + 5000000 < 2 ^ 63"
  then have m: "sint (next_expiry expiry now) = max (sint expiry + 33000000) (sint now + 5000000)"
    by (simp add: sint_next_expiry)
  then show "sint (next_expiry expiry now) = max (sint expiry + 33000000) (sint now + 5000000)" .
  from m show "sint expiry < sint (next_expiry expiry now)" by simp
  from m show "sint now + 5000000 \<le> sint (next_expiry expiry now)" by simp
next
  assume r: "readings_follow expiry nows"
  from readings_follow_expiries [OF r]
  show "successively (\<lambda>a b. sint a + 33000000 \<le> sint b) (expiry # expiries expiry nows)"
    and "list_all2 (\<lambda>d now. sint now + 5000000 \<le> sint d) (expiries expiry nows) nows"
    by simp_all
  from readings_follow_expiries [OF r]
  show "sorted_wrt (\<lambda>a b. sint a < sint b) (expiry # expiries expiry nows)"
    by (intro successively_gap_sorted) simp
qed

lemma expiries_slow_tick:
  "expiries 0 slow_tick = [33000000, 66000000, 205000000, 245000000]"
  by (simp add: slow_tick_def next_expiry_def std_max_def event_loop_interval_def
        minimum_slack_def)

theorem expiry_is_max_and_advances_witness:
  "sint (66000000 :: time_point) + 33000000 < 2 ^ 63
   \<and> sint (200000000 :: time_point) + 5000000 < 2 ^ 63
   \<and> sint (next_expiry 66000000 200000000) = 205000000
   \<and> sint (66000000 :: time_point) < sint (next_expiry 66000000 200000000)
   \<and> readings_follow 0 slow_tick
   \<and> expiries 0 slow_tick = [33000000, 66000000, 205000000, 245000000]
   \<and> sorted_wrt (\<lambda>a b. sint a < sint b) (0 # expiries 0 slow_tick)
   \<and> successively (\<lambda>a b. sint a + 33000000 \<le> sint b) (0 # expiries 0 slow_tick)
   \<and> list_all2 (\<lambda>d now. sint now + 5000000 \<le> sint d) (expiries 0 slow_tick) slow_tick"
proof -
  have h: "sint (66000000 :: time_point) + 33000000 < 2 ^ 63
      \<and> sint (200000000 :: time_point) + 5000000 < 2 ^ 63"
    by simp
  from expiry_is_max_and_advances
         [where expiry = 66000000 and now = 200000000 and nows = "[]",
          THEN conjunct2, THEN conjunct2, THEN conjunct1, THEN mp, OF h]
  have c: "sint (next_expiry 66000000 200000000) = 205000000"
    and d: "sint (66000000 :: time_point) < sint (next_expiry 66000000 200000000)"
    by simp_all
  have r: "readings_follow 0 slow_tick"
    by (simp add: slow_tick_def next_expiry_def std_max_def event_loop_interval_def
          minimum_slack_def)
  note run = expiry_is_max_and_advances
         [where expiry = 0 and now = 0 and nows = slow_tick,
          THEN conjunct2, THEN conjunct2, THEN conjunct2, THEN mp, OF r]
  from h c d r expiries_slow_tick run show ?thesis by (intro conjI) simp_all
qed

subsection \<open>The deferred shutdown\<close>

lemma emit_fields [simp]:
  "shutdown_timer (emit es s) = shutdown_timer s"
  "context_stopped (emit es s) = context_stopped s"
  "message_queue (emit es s) = message_queue s"
  "effects (emit es s) = effects s @ es"
  by (simp_all add: emit_def)

lemma new_effects_emit [simp]: "new_effects s (emit es s) = es"
  by (simp add: new_effects_def)

lemma new_effects_same [simp]: "new_effects s s = []"
  by (simp add: new_effects_def)




lemma shutdown_timer_expires_early:
  assumes "shutdown_timer s = Some expiry" and "\<not> expiry \<le>s clock"
  shows "shutdown_timer_expires clock s = s"
  using assms by (simp add: shutdown_timer_expires_def)







subsection \<open>The prefix of the logger\<close>

lemma in_class_not_hyphen [simp]: "in_class (NoneOf ''-'') c \<longleftrightarrow> c \<noteq> CHR ''-''"
  by simp

lemma regex_match_star_end:
  "regex_match [Star cl] s = (if \<forall>c \<in> set s. in_class cl c then Some [] else None)"
  by (induction s) auto

lemma regex_match_plus_end:
  "regex_match [Plus cl] s = (if s \<noteq> [] \<and> (\<forall>c \<in> set s. in_class cl c) then Some [] else None)"
  by (cases s) (auto simp: regex_match_star_end)

lemma regex_match_star_hyphen:
  "regex_match (Star (NoneOf ''-'') # Chr CHR ''-'' # r) s
     = regex_match (Chr CHR ''-'' # r) (dropWhile (\<lambda>c. c \<noteq> CHR ''-'') s)"
  by (induction s) (auto split: option.splits)

lemma two_fields_match:
  assumes "two_fields s"
  shows "regex_match [Chr CHR ''-'', Plus (NoneOf ''-''), Chr CHR ''-'', Plus (NoneOf ''-'')] s
           = Some []"
proof -
  from assms obtain a b where s: "s = CHR ''-'' # a @ CHR ''-'' # b"
    and ab: "a \<noteq> []" "b \<noteq> []" "CHR ''-'' \<notin> set a" "CHR ''-'' \<notin> set b"
    unfolding two_fields_def by auto
  from ab(1) obtain x a' where a: "a = x # a'" by (cases a) auto
  with ab(3) have x: "x \<noteq> CHR ''-''" and a': "\<forall>c \<in> set a'. c \<noteq> CHR ''-''" by auto
  from a' have dw: "dropWhile (\<lambda>c. c \<noteq> CHR ''-'') (a' @ CHR ''-'' # b) = CHR ''-'' # b"
    by (simp add: dropWhile_append2)
  from ab(2,4) have b: "regex_match [Plus (NoneOf ''-'')] b = Some []"
    by (simp add: regex_match_plus_end) 
  show ?thesis
    unfolding s a using x by (simp add: regex_match_star_hyphen dw b)
qed

lemma match_two_fields:
  assumes "regex_match [Chr CHR ''-'', Plus (NoneOf ''-''), Chr CHR ''-'', Plus (NoneOf ''-'')] s
             = Some g"
  shows "two_fields s \<and> g = []"
proof -
  let ?nd = "\<lambda>c. c \<noteq> CHR ''-''"
  from assms obtain s1 where s: "s = CHR ''-'' # s1"
    and m1: "regex_match [Plus (NoneOf ''-''), Chr CHR ''-'', Plus (NoneOf ''-'')] s1 = Some g"
    by (cases s) (simp_all split: if_splits)
  from m1 obtain x xs where s1: "s1 = x # xs" and x: "x \<noteq> CHR ''-''"
    and m2: "regex_match [Star (NoneOf ''-''), Chr CHR ''-'', Plus (NoneOf ''-'')] xs = Some g"
    by (cases s1) (simp_all split: if_splits)
  from m2 have m3: "regex_match [Chr CHR ''-'', Plus (NoneOf ''-'')] (dropWhile ?nd xs) = Some g"
    by (simp add: regex_match_star_hyphen)
  then obtain b where dw: "dropWhile ?nd xs = CHR ''-'' # b"
    and m4: "regex_match [Plus (NoneOf ''-'')] b = Some g"
    by (cases "dropWhile ?nd xs") (simp_all split: if_splits)
  from m4 have b: "b \<noteq> []" "CHR ''-'' \<notin> set b" and g: "g = []"
    by (auto simp: regex_match_plus_end split: if_splits)
  have "xs = takeWhile ?nd xs @ dropWhile ?nd xs" by simp
  with dw have xs: "xs = takeWhile ?nd xs @ CHR ''-'' # b" by simp
  have tw: "CHR ''-'' \<notin> set (takeWhile ?nd xs)"
    by (auto dest: set_takeWhileD)
  have "s = ''-'' @ (x # takeWhile ?nd xs) @ ''-'' @ b"
    using s s1 xs by simp
  moreover have "x # takeWhile ?nd xs \<noteq> []" by simp
  moreover have "CHR ''-'' \<notin> set (x # takeWhile ?nd xs)" using x tw by simp
  ultimately have "two_fields s" unfolding two_fields_def using b by blast
  with g show ?thesis by simp
qed

lemma capture_sound:
  "regex_match (CaptureStar cl # [Chr CHR ''-'', Plus (NoneOf ''-''), Chr CHR ''-'',
                                 Plus (NoneOf ''-'')]) s = Some g \<Longrightarrow>
   \<exists>rest. s = g @ rest \<and> (\<forall>c \<in> set g. in_class cl c) \<and> two_fields rest"
proof (induction s arbitrary: g)
  case Nil
  then show ?case by (auto dest: match_two_fields)
next
  case (Cons x xs)
  let ?T = "[Chr CHR ''-'', Plus (NoneOf ''-''), Chr CHR ''-'', Plus (NoneOf ''-'')]"
  show ?case
  proof (cases "in_class cl x")
    case False
    with Cons.prems have "regex_match ?T (x # xs) = Some g" by simp
    from match_two_fields [OF this] show ?thesis by simp
  next
    case True
    show ?thesis
    proof (cases "regex_match (CaptureStar cl # ?T) xs")
      case None
      with True Cons.prems have "regex_match ?T (x # xs) = Some g" by simp
      from match_two_fields [OF this] show ?thesis by simp
    next
      case (Some g')
      with True Cons.prems have g: "g = x # g'" by simp
      from Cons.IH [OF Some] obtain rest where
        "xs = g' @ rest" "\<forall>c \<in> set g'. in_class cl c" "two_fields rest"
        by blast
      with g True show ?thesis by simp
    qed
  qed
qed

lemma capture_complete:
  "(\<forall>c \<in> set g. in_class cl c) \<Longrightarrow> two_fields rest \<Longrightarrow>
   \<exists>g'. regex_match (CaptureStar cl # [Chr CHR ''-'', Plus (NoneOf ''-''), Chr CHR ''-'',
                                       Plus (NoneOf ''-'')]) (g @ rest) = Some g'"
proof (induction g)
  case Nil
  let ?T = "[Chr CHR ''-'', Plus (NoneOf ''-''), Chr CHR ''-'', Plus (NoneOf ''-'')]"
  from two_fields_match [OF Nil(2)] have t: "regex_match ?T rest = Some []" .
  show ?case
  proof (cases rest)
    case Nil
    with t show ?thesis by simp
  next
    case (Cons x xs)
    with t show ?thesis by (cases "regex_match (CaptureStar cl # ?T) xs") auto
  qed
next
  case (Cons c g)
  then obtain g' where
    "regex_match (CaptureStar cl # [Chr CHR ''-'', Plus (NoneOf ''-''), Chr CHR ''-'',
                                    Plus (NoneOf ''-'')]) (g @ rest) = Some g'"
    by auto
  with Cons.prems show ?case by simp
qed

lemma takeWhile_until:
  "\<forall>c \<in> set xs. P c \<Longrightarrow> \<not> P y \<Longrightarrow> takeWhile P (xs @ y # ys) = xs"
  by (induction xs) auto

lemma dropWhile_until:
  "\<forall>c \<in> set xs. P c \<Longrightarrow> \<not> P y \<Longrightarrow> dropWhile P (xs @ y # ys) = y # ys"
  by (induction xs) auto

lemma regex_match_literal_iff:
  "regex_match (map Chr lit @ r) name = Some g \<longleftrightarrow>
     (\<exists>s. name = lit @ s \<and> regex_match r s = Some g)"
proof (induction lit arbitrary: name)
  case Nil
  then show ?case by simp
next
  case (Cons c lit)
  then show ?case by (cases name) auto
qed

lemma two_fields_length:
  assumes "two_fields rest"
  shows "length rest
     = 2 + length (takeWhile (\<lambda>c. c \<noteq> CHR ''-'') (rev (g @ rest)))
         + length (takeWhile (\<lambda>c. c \<noteq> CHR ''-'')
                     (tl (dropWhile (\<lambda>c. c \<noteq> CHR ''-'') (rev (g @ rest)))))"
proof -
  let ?nd = "\<lambda>c. c \<noteq> CHR ''-''"
  from assms obtain a b where rest: "rest = CHR ''-'' # a @ CHR ''-'' # b"
    and ab: "CHR ''-'' \<notin> set a" "CHR ''-'' \<notin> set b"
    unfolding two_fields_def by auto
  have r: "rev (g @ rest) = rev b @ CHR ''-'' # (rev a @ CHR ''-'' # rev g)"
    unfolding rest by simp
  have nb: "\<forall>c \<in> set (rev b). c \<noteq> CHR ''-''" and na: "\<forall>c \<in> set (rev a). c \<noteq> CHR ''-''"
    using ab by auto
  have t1: "takeWhile ?nd (rev (g @ rest)) = rev b"
    unfolding r by (rule takeWhile_until [OF nb]) simp
  have d1: "dropWhile ?nd (rev (g @ rest)) = CHR ''-'' # (rev a @ CHR ''-'' # rev g)"
    unfolding r by (rule dropWhile_until [OF nb]) simp
  have "takeWhile ?nd (rev a @ CHR ''-'' # rev g) = rev a"
    by (rule takeWhile_until [OF na]) simp
  then have t2: "takeWhile ?nd (tl (dropWhile ?nd (rev (g @ rest)))) = rev a"
    unfolding d1 by simp
  show ?thesis unfolding t1 t2 by (simp add: rest)
qed

lemma two_fields_unique:
  assumes "g @ rest = g' @ rest'" and "two_fields rest" and "two_fields rest'"
  shows "g = g'"
proof -
  from two_fields_length [OF assms(2), of g] two_fields_length [OF assms(3), of g'] assms(1)
  have "length rest = length rest'" by simp
  with assms(1) show ?thesis by simp
qed

lemma capture_iff:
  "regex_match (CaptureStar cl # [Chr CHR ''-'', Plus (NoneOf ''-''), Chr CHR ''-'',
                                 Plus (NoneOf ''-'')]) s = Some g \<longleftrightarrow>
   (\<exists>rest. s = g @ rest \<and> (\<forall>c \<in> set g. in_class cl c) \<and> two_fields rest)"
proof
  assume "regex_match (CaptureStar cl # [Chr CHR ''-'', Plus (NoneOf ''-''), Chr CHR ''-'',
                                 Plus (NoneOf ''-'')]) s = Some g"
  then show "\<exists>rest. s = g @ rest \<and> (\<forall>c \<in> set g. in_class cl c) \<and> two_fields rest"
    by (rule capture_sound)
next
  assume "\<exists>rest. s = g @ rest \<and> (\<forall>c \<in> set g. in_class cl c) \<and> two_fields rest"
  then obtain rest where s: "s = g @ rest" and g: "\<forall>c \<in> set g. in_class cl c"
    and rest: "two_fields rest"
    by blast
  from capture_complete [OF g rest] obtain g' where
    m: "regex_match (CaptureStar cl # [Chr CHR ''-'', Plus (NoneOf ''-''), Chr CHR ''-'',
                                 Plus (NoneOf ''-'')]) (g @ rest) = Some g'"
    by blast
  from capture_sound [OF m] obtain rest' where e: "g @ rest = g' @ rest'"
    and rest': "two_fields rest'"
    by blast
  have "g = g'" by (rule two_fields_unique [OF e rest rest'])
  with m s show "regex_match (CaptureStar cl # [Chr CHR ''-'', Plus (NoneOf ''-''),
      Chr CHR ''-'', Plus (NoneOf ''-'')]) s = Some g"
    by simp
qed

lemma group_regexp_iff:
  "regex_match group_regexp name = Some g \<longleftrightarrow>
     (\<exists>rest. name = ''yabridge-group-'' @ g @ rest
        \<and> (\<forall>c \<in> set g. c \<noteq> CHR 0x0A \<and> c \<noteq> CHR 0x0D) \<and> two_fields rest)"
proof -
  have "regex_match group_regexp name = Some g \<longleftrightarrow>
     (\<exists>s. name = ''yabridge-group-'' @ s
        \<and> regex_match (CaptureStar AnyChar # [Chr CHR ''-'', Plus (NoneOf ''-''),
             Chr CHR ''-'', Plus (NoneOf ''-'')]) s = Some g)"
    unfolding group_regexp_def by (rule regex_match_literal_iff)
  also have "\<dots> \<longleftrightarrow> (\<exists>rest. name = ''yabridge-group-'' @ g @ rest
        \<and> (\<forall>c \<in> set g. c \<noteq> CHR 0x0A \<and> c \<noteq> CHR 0x0D) \<and> two_fields rest)"
    unfolding capture_iff by auto
  finally show ?thesis .
qed

lemma filename_of_file:
  assumes "name \<noteq> []" and "CHR ''/'' \<notin> set name"
  shows "filename (directory @ ''/'' @ name) = name"
proof -
  have "last name \<in> set name" using assms(1) by (rule last_in_set)
  with assms(2) have "last name \<noteq> CHR ''/''" by auto
  moreover have "last (directory @ ''/'' @ name) = last name" using assms(1) by simp
  ultimately have l: "last (directory @ ''/'' @ name) \<noteq> CHR ''/''" by (simp only: not_False_eq_True)
  have "rev (directory @ ''/'' @ name) = rev name @ CHR ''/'' # rev directory" by simp
  moreover have "takeWhile (\<lambda>c. c \<noteq> CHR ''/'') (rev name @ CHR ''/'' # rev directory) = rev name"
    by (rule takeWhile_until) (use assms(2) in auto)
  moreover have "directory @ ''/'' @ name \<noteq> ''/''"
  proof
    assume "directory @ ''/'' @ name = ''/''"
    then have "length (directory @ ''/'' @ name) = length ''/''" by (rule arg_cong)
    with assms(1) show False by simp
  qed
  ultimately show ?thesis using l by (simp add: filename_def)
qed

lemma replace_extension_of_name:
  assumes "stem \<noteq> []" and "ext \<noteq> []" and "CHR ''.'' \<notin> set ext"
  shows "replace_extension (stem @ ''.'' @ ext) = stem"
proof -
  let ?name = "stem @ ''.'' @ ext"
  from assms(1,2) have "3 \<le> length ?name"
    by (cases stem; cases ext) simp_all
  then have len: "3 \<le> length stem + length ext + 1" by simp
  have n1: "?name \<noteq> ''.''"
  proof
    assume "?name = ''.''"
    then have "length ?name = length ''.''" by (rule arg_cong)
    with len show False by simp
  qed
  have n2: "?name \<noteq> ''..''"
  proof
    assume "?name = ''..''"
    then have "length ?name = length ''..''" by (rule arg_cong)
    with len show False by simp
  qed
  note n = n1 n2
  have d: "CHR ''.'' \<in> set ?name" by simp
  have "rev ?name = rev ext @ CHR ''.'' # rev stem" by simp
  moreover have "dropWhile (\<lambda>c. c \<noteq> CHR ''.'') (rev ext @ CHR ''.'' # rev stem)
                   = CHR ''.'' # rev stem"
    by (rule dropWhile_until) (use assms(3) in auto)
  ultimately have "rev (tl (dropWhile (\<lambda>c. c \<noteq> CHR ''.'') (rev ?name))) = stem" by simp
  with n d show ?thesis unfolding replace_extension_def by simp
qed

text \<open>
  Claim C9. The prefix is a function of the path of the socket and of the build. The name
  that is matched, and that is used when nothing matches, is the file name without its
  extension. When that name is \<^verbatim>\<open>yabridge-group-\<close>, a group name without line
  terminators, a hyphen, a field, a hyphen and a field (the two fields non-empty and without
  hyphens), the prefix is the group name in brackets, followed by \<^verbatim>\<open>-x32\<close> in the
  32-bit build only. When the name has no such form, the prefix is that name in brackets:
  the file name with its extension removed, not the file name as it stands. Nothing fails
  in either case. For a path that ends in a directory separator, a stem, a dot and an
  extension, the name is the stem.
\<close>

theorem logger_prefix_from_group_name:
  "(replace_extension (filename socket_path)
      = ''yabridge-group-'' @ group_name @ ''-'' @ wine_prefix_id @ ''-'' @ architecture
    \<and> CHR 0x0A \<notin> set group_name \<and> CHR 0x0D \<notin> set group_name
    \<and> wine_prefix_id \<noteq> [] \<and> architecture \<noteq> []
    \<and> CHR ''-'' \<notin> set wine_prefix_id \<and> CHR ''-'' \<notin> set architecture
    \<longrightarrow> create_logger_prefix thirty_two_bit socket_path
          = ''['' @ group_name @ (if thirty_two_bit then ''-x32'' else []) @ ''] '')
   \<and> (\<not> (\<exists>g a b. replace_extension (filename socket_path)
                      = ''yabridge-group-'' @ g @ ''-'' @ a @ ''-'' @ b
                  \<and> CHR 0x0A \<notin> set g \<and> CHR 0x0D \<notin> set g \<and> a \<noteq> [] \<and> b \<noteq> []
                  \<and> CHR ''-'' \<notin> set a \<and> CHR ''-'' \<notin> set b)
    \<longrightarrow> create_logger_prefix thirty_two_bit socket_path
          = ''['' @ replace_extension (filename socket_path) @ ''] '')
   \<and> (stem \<noteq> [] \<and> extension \<noteq> [] \<and> CHR ''/'' \<notin> set stem \<and> CHR ''/'' \<notin> set extension
        \<and> CHR ''.'' \<notin> set extension
    \<longrightarrow> replace_extension (filename (directory @ ''/'' @ stem @ ''.'' @ extension)) = stem)"
proof (intro conjI)
  let ?name = "replace_extension (filename socket_path)"
  show "?name = ''yabridge-group-'' @ group_name @ ''-'' @ wine_prefix_id @ ''-'' @ architecture
    \<and> CHR 0x0A \<notin> set group_name \<and> CHR 0x0D \<notin> set group_name
    \<and> wine_prefix_id \<noteq> [] \<and> architecture \<noteq> []
    \<and> CHR ''-'' \<notin> set wine_prefix_id \<and> CHR ''-'' \<notin> set architecture
    \<longrightarrow> create_logger_prefix thirty_two_bit socket_path
          = ''['' @ group_name @ (if thirty_two_bit then ''-x32'' else []) @ ''] ''"
  proof (rule impI, elim conjE)
    assume n: "?name = ''yabridge-group-'' @ group_name @ ''-'' @ wine_prefix_id @ ''-''
                  @ architecture"
      and g: "CHR 0x0A \<notin> set group_name" "CHR 0x0D \<notin> set group_name"
      and f: "wine_prefix_id \<noteq> []" "architecture \<noteq> []"
        "CHR ''-'' \<notin> set wine_prefix_id" "CHR ''-'' \<notin> set architecture"
    from f have "two_fields (''-'' @ wine_prefix_id @ ''-'' @ architecture)"
      unfolding two_fields_def by blast
    moreover from g have "\<forall>c \<in> set group_name. c \<noteq> CHR 0x0A \<and> c \<noteq> CHR 0x0D" by auto
    ultimately have "regex_match group_regexp ?name = Some group_name"
      unfolding group_regexp_iff using n by blast
    then show "create_logger_prefix thirty_two_bit socket_path
          = ''['' @ group_name @ (if thirty_two_bit then ''-x32'' else []) @ ''] ''"
      by (simp add: create_logger_prefix_def Let_def)
  qed
next
  let ?name = "replace_extension (filename socket_path)"
  show "\<not> (\<exists>g a b. ?name = ''yabridge-group-'' @ g @ ''-'' @ a @ ''-'' @ b
                  \<and> CHR 0x0A \<notin> set g \<and> CHR 0x0D \<notin> set g \<and> a \<noteq> [] \<and> b \<noteq> []
                  \<and> CHR ''-'' \<notin> set a \<and> CHR ''-'' \<notin> set b)
    \<longrightarrow> create_logger_prefix thirty_two_bit socket_path = ''['' @ ?name @ ''] ''"
  proof (rule impI)
    assume no: "\<not> (\<exists>g a b. ?name = ''yabridge-group-'' @ g @ ''-'' @ a @ ''-'' @ b
                  \<and> CHR 0x0A \<notin> set g \<and> CHR 0x0D \<notin> set g \<and> a \<noteq> [] \<and> b \<noteq> []
                  \<and> CHR ''-'' \<notin> set a \<and> CHR ''-'' \<notin> set b)"
    have "regex_match group_regexp ?name = None"
    proof (cases "regex_match group_regexp ?name")
      case None
      then show ?thesis .
    next
      case (Some g)
      then obtain rest where r: "?name = ''yabridge-group-'' @ g @ rest"
        "\<forall>c \<in> set g. c \<noteq> CHR 0x0A \<and> c \<noteq> CHR 0x0D" "two_fields rest"
        unfolding group_regexp_iff by blast
      from r(3) obtain a b where "rest = ''-'' @ a @ ''-'' @ b" "a \<noteq> []" "b \<noteq> []"
        "CHR ''-'' \<notin> set a" "CHR ''-'' \<notin> set b"
        unfolding two_fields_def by blast
      with r(1,2) have "\<exists>g a b. ?name = ''yabridge-group-'' @ g @ ''-'' @ a @ ''-'' @ b
                  \<and> CHR 0x0A \<notin> set g \<and> CHR 0x0D \<notin> set g \<and> a \<noteq> [] \<and> b \<noteq> []
                  \<and> CHR ''-'' \<notin> set a \<and> CHR ''-'' \<notin> set b"
        by blast
      with no show ?thesis by blast
    qed
    then show "create_logger_prefix thirty_two_bit socket_path = ''['' @ ?name @ ''] ''"
      by (simp add: create_logger_prefix_def Let_def)
  qed
next
  show "stem \<noteq> [] \<and> extension \<noteq> [] \<and> CHR ''/'' \<notin> set stem \<and> CHR ''/'' \<notin> set extension
        \<and> CHR ''.'' \<notin> set extension
    \<longrightarrow> replace_extension (filename (directory @ ''/'' @ stem @ ''.'' @ extension)) = stem"
  proof (rule impI, elim conjE)
    assume h: "stem \<noteq> []" "extension \<noteq> []" "CHR ''/'' \<notin> set stem"
      "CHR ''/'' \<notin> set extension" "CHR ''.'' \<notin> set extension"
    then have "filename (directory @ ''/'' @ (stem @ ''.'' @ extension))
                 = stem @ ''.'' @ extension"
      by (intro filename_of_file) auto
    moreover have "replace_extension (stem @ ''.'' @ extension) = stem"
      using h(1,2,5) by (rule replace_extension_of_name)
    ultimately show "replace_extension (filename (directory @ ''/'' @ stem @ ''.'' @ extension))
            = stem"
      by simp
  qed
qed

theorem logger_prefix_from_group_name_witness:
  "replace_extension (filename group_socket)
      = ''yabridge-group-'' @ ''my-group'' @ ''-'' @ ''1234'' @ ''-'' @ ''x64''
   \<and> create_logger_prefix False group_socket = ''[my-group] ''
   \<and> create_logger_prefix True group_socket = ''[my-group-x32] ''
   \<and> \<not> (\<exists>g a b. replace_extension (filename ''/tmp/foo.sock'')
                      = ''yabridge-group-'' @ g @ ''-'' @ a @ ''-'' @ b
                  \<and> CHR 0x0A \<notin> set g \<and> CHR 0x0D \<notin> set g \<and> a \<noteq> [] \<and> b \<noteq> []
                  \<and> CHR ''-'' \<notin> set a \<and> CHR ''-'' \<notin> set b)
   \<and> create_logger_prefix False ''/tmp/foo.sock'' = ''[foo] ''
   \<and> replace_extension (filename (''/tmp'' @ ''/'' @ ''foo'' @ ''.'' @ ''sock'')) = ''foo''"
proof -
  have n: "replace_extension (filename group_socket)
      = ''yabridge-group-'' @ ''my-group'' @ ''-'' @ ''1234'' @ ''-'' @ ''x64''"
    by (simp add: group_socket_def filename_def replace_extension_def)
  have h1: "replace_extension (filename group_socket)
      = ''yabridge-group-'' @ ''my-group'' @ ''-'' @ ''1234'' @ ''-'' @ ''x64''
    \<and> CHR 0x0A \<notin> set ''my-group'' \<and> CHR 0x0D \<notin> set ''my-group''
    \<and> ''1234'' \<noteq> [] \<and> ''x64'' \<noteq> []
    \<and> CHR ''-'' \<notin> set ''1234'' \<and> CHR ''-'' \<notin> set ''x64''"
    using n by simp
  have c1: "create_logger_prefix False group_socket = ''[my-group] ''"
    using logger_prefix_from_group_name
            [where socket_path = group_socket and group_name = "''my-group''"
               and wine_prefix_id = "''1234''" and architecture = "''x64''" and thirty_two_bit = False,
             THEN conjunct1, THEN mp, OF h1]
    by simp
  have c2: "create_logger_prefix True group_socket = ''[my-group-x32] ''"
    using logger_prefix_from_group_name
            [where socket_path = group_socket and group_name = "''my-group''"
               and wine_prefix_id = "''1234''" and architecture = "''x64''" and thirty_two_bit = True,
             THEN conjunct1, THEN mp, OF h1]
    by simp
  have f: "replace_extension (filename ''/tmp/foo.sock'') = ''foo''"
    by (simp add: filename_def replace_extension_def)
  have h2: "\<not> (\<exists>g a b. replace_extension (filename ''/tmp/foo.sock'')
                      = ''yabridge-group-'' @ g @ ''-'' @ a @ ''-'' @ b
                  \<and> CHR 0x0A \<notin> set g \<and> CHR 0x0D \<notin> set g \<and> a \<noteq> [] \<and> b \<noteq> []
                  \<and> CHR ''-'' \<notin> set a \<and> CHR ''-'' \<notin> set b)"
    unfolding f by simp
  have c3: "create_logger_prefix False ''/tmp/foo.sock'' = ''[foo] ''"
    using logger_prefix_from_group_name
            [where socket_path = "''/tmp/foo.sock''" and thirty_two_bit = False,
             THEN conjunct2, THEN conjunct1, THEN mp, OF h2]
    unfolding f by simp
  have h3: "''foo'' \<noteq> [] \<and> ''sock'' \<noteq> [] \<and> CHR ''/'' \<notin> set ''foo''
      \<and> CHR ''/'' \<notin> set ''sock'' \<and> CHR ''.'' \<notin> set ''sock''"
    by simp
  have c4: "replace_extension (filename (''/tmp'' @ ''/'' @ ''foo'' @ ''.'' @ ''sock'')) = ''foo''"
    by (rule logger_prefix_from_group_name
            [where stem = "''foo''" and extension = "''sock''" and directory = "''/tmp''",
             THEN conjunct2, THEN conjunct2, THEN mp, OF h3])
  from n c1 c2 h2 c3 c4 show ?thesis by (intro conjI)
qed

text \<open>
  The socket \<^verbatim>\<open>/tmp/foo.sock\<close>: neither its file name nor the name without the
  extension matches, and the prefix is \<^verbatim>\<open>[foo]\<close>, not the file name in brackets.
  And a socket named after the pattern for a group whose name holds a line feed: the
  regular expression does not match, since its \<^verbatim>\<open>.\<close> stands for no line terminator,
  and the prefix is the whole name without the extension, not the group name.
\<close>

theorem logger_prefix_keeps_no_extension:
  "filename ''/tmp/foo.sock'' = ''foo.sock''
   \<and> regex_match group_regexp ''foo.sock'' = None
   \<and> regex_match group_regexp (replace_extension (filename ''/tmp/foo.sock'')) = None
   \<and> create_logger_prefix False ''/tmp/foo.sock'' = ''[foo] ''
   \<and> create_logger_prefix False ''/tmp/foo.sock'' \<noteq> ''['' @ filename ''/tmp/foo.sock'' @ ''] ''
   \<and> replace_extension (filename group_socket_with_line_feed)
       = ''yabridge-group-'' @ (''a'' @ [CHR 0x0A] @ ''b'') @ ''-'' @ ''1234'' @ ''-'' @ ''x64''
   \<and> create_logger_prefix False group_socket_with_line_feed
       = ''[yabridge-group-a'' @ [CHR 0x0A] @ ''b-1234-x64] ''
   \<and> create_logger_prefix False group_socket_with_line_feed
       \<noteq> ''['' @ (''a'' @ [CHR 0x0A] @ ''b'') @ ''] ''"
  by (simp add: create_logger_prefix_def filename_def replace_extension_def group_regexp_def
        group_socket_with_line_feed_def)

end
